theory Spec2Isabelle
  imports Complex_Main "HOL-Library.Char_ord" "HOL-Library.List_Lexorder" "HOL-Library.Log_Nat"
begin

section \<open>Diagnostic test runner\<close>

text \<open>
  Standard output is the text written so far.  Python's \<^verbatim>\<open>print(text)\<close> writes the
  text and a newline.  A library test either raises (\<open>Inl\<close> of the exception's message)
  or returns its tuple of statistics (\<open>Inr\<close>); its extra arguments (\<^verbatim>\<open>*args\<close>,
  \<^verbatim>\<open>**kwargs\<close>) are part of the function passed in.  The parameter \<open>str\<close> is Python's
  formatting of a statistic inside an f-string.
\<close>

definition nl :: char where
  "nl = CHR 0x0A"

definition indent :: string where
  "indent = replicate 4 CHR '' ''"

definition py_print :: "string \<Rightarrow> string \<Rightarrow> string" where
  "py_print text out = out @ text @ [nl]"

definition display_test ::
  "('s \<Rightarrow> string) \<Rightarrow> 'm \<Rightarrow> string \<Rightarrow> string list \<Rightarrow> ('m \<Rightarrow> string + 's list) \<Rightarrow> string
     \<Rightarrow> string + string" where
  "display_test str model title stats_names test out =
     (case test model of
        Inl e \<Rightarrow> Inl e
      | Inr score \<Rightarrow>
          Inr (py_print
                 (foldl (\<lambda>text (name, stat). text @ indent @ name @ '': '' @ str stat @ [nl])
                    (title @ '' test:'' @ [nl]) (zip stats_names score))
                 out))"

text \<open>The cells that wrap the call: \<^verbatim>\<open>try: display_test(...) except Exception as e: print(e)\<close>.\<close>

definition try_display_test ::
  "('s \<Rightarrow> string) \<Rightarrow> 'm \<Rightarrow> string \<Rightarrow> string list \<Rightarrow> ('m \<Rightarrow> string + 's list) \<Rightarrow> string
     \<Rightarrow> string" where
  "try_display_test str model title stats_names test out =
     (case display_test str model title stats_names test out of
        Inl e \<Rightarrow> py_print e out
      | Inr out' \<Rightarrow> out')"

text \<open>
  The diagnostics section of the notebook, run top to bottom: the Rainbow cell calls
  \<open>display_test\<close> directly, the Harvey-Collier, Jarque-Bera and Breusch-Pagan cells call it
  inside \<^verbatim>\<open>try\<close>.  The four library tests are parameters, the Harvey-Collier test with its
  \<^verbatim>\<open>skip\<close> and the Breusch-Pagan test with its \<^verbatim>\<open>exog_het\<close> already supplied.  The result is
  the standard output and the exception that ended the run, if any.
\<close>

definition diagnostics ::
  "('s \<Rightarrow> string) \<Rightarrow> ('m \<Rightarrow> string + 's list) \<Rightarrow> ('m \<Rightarrow> string + 's list) \<Rightarrow>
   ('r \<Rightarrow> string + 's list) \<Rightarrow> ('r \<Rightarrow> string + 's list) \<Rightarrow> 'm \<Rightarrow> 'r \<Rightarrow> string
     \<Rightarrow> string \<times> string option" where
  "diagnostics str linear_rainbow harvey_collier_skip jarque_bera breuschpagan_exog model resid out =
     (case display_test str model ''Rainbow'' [''score'', ''p-value''] linear_rainbow out of
        Inl e \<Rightarrow> (out, Some e)
      | Inr out1 \<Rightarrow>
          (let out2 = try_display_test str model ''Harvey Collier'' [''score'', ''p-value'']
                        harvey_collier_skip out1;
               out3 = try_display_test str resid ''Jarque-Bera''
                        [''score'', ''p-value'', ''skew'', ''kurtosis''] jarque_bera out2;
               out4 = try_display_test str resid ''Breusch-Pagan''
                        [''LM score'', ''LM p-value'', ''F score'', ''F p-value'']
                        breuschpagan_exog out3
           in (out4, None)))"

text \<open>The block the specification describes for one test, written from its words.\<close>

definition stat_line :: "('s \<Rightarrow> string) \<Rightarrow> string \<Rightarrow> 's \<Rightarrow> string" where
  "stat_line str name stat = indent @ name @ '': '' @ str stat @ [nl]"

definition block :: "('s \<Rightarrow> string) \<Rightarrow> string \<Rightarrow> string list \<Rightarrow> 's list \<Rightarrow> string" where
  "block str title names stats =
     title @ '' test:'' @ [nl] @ concat (map (\<lambda>i. stat_line str (names ! i) (stats ! i)) [0..<length stats])
       @ [nl]"


text \<open>A test that returns two statistics, for a call that declares one name.\<close>

definition returns_two :: "unit \<Rightarrow> string + string list" where
  "returns_two m = Inr [''1'', ''2'']"

section \<open>Data cleaning\<close>

text \<open>
  A cell of the table holds a number, a string or a missing value (pandas' NaN).  Numbers are
  exact reals: cleaning only compares them.  A table is its column labels and its rows, each
  row holding one cell per column.
\<close>

datatype val = Num real | Str string | NaN

datatype py_error = KeyError string | TypeError | ValueError string

record frame =
  columns :: "string list"
  rows :: "val list list"

definition frame_ok :: "frame \<Rightarrow> bool" where
  "frame_ok df = (distinct (columns df) \<and> list_all (\<lambda>r. length r = length (columns df)) (rows df))"

text \<open>The cell of row \<open>r\<close> under label \<open>c\<close>, for a table with columns \<open>cs\<close>.\<close>

definition cell :: "string list \<Rightarrow> val list \<Rightarrow> string \<Rightarrow> val option" where
  "cell cs r c = map_of (zip cs r) c"

definition cell_value :: "string list \<Rightarrow> val list \<Rightarrow> string \<Rightarrow> val" where
  "cell_value cs r c = (case cell cs r c of Some v \<Rightarrow> v | None \<Rightarrow> NaN)"

definition set_cell :: "string list \<Rightarrow> string \<Rightarrow> val \<Rightarrow> val list \<Rightarrow> val list" where
  "set_cell cs col x r = map (\<lambda>(c, v). if c = col then x else v) (zip cs r)"

text \<open>\<^verbatim>\<open>df.drop(labels, axis="columns")\<close>: a label that is not a column raises KeyError.\<close>

definition drop_columns :: "string list \<Rightarrow> frame \<Rightarrow> py_error + frame" where
  "drop_columns labels df =
     (case filter (\<lambda>l. l \<notin> set (columns df)) labels of
        l # _ \<Rightarrow> Inl (KeyError l)
      | [] \<Rightarrow>
          Inr \<lparr>columns = filter (\<lambda>c. c \<notin> set labels) (columns df),
               rows = map (\<lambda>r. map snd (filter (\<lambda>(c, v). c \<notin> set labels) (zip (columns df) r)))
                        (rows df)\<rparr>)"

text \<open>\<^verbatim>\<open>df[col]\<close>: the column as a series of values; KeyError when there is no such column.\<close>

definition getitem :: "frame \<Rightarrow> string \<Rightarrow> py_error + val list" where
  "getitem df col =
     (if col \<in> set (columns df)
      then Inr (map (\<lambda>r. cell_value (columns df) r col) (rows df))
      else Inl (KeyError col))"

text \<open>\<^verbatim>\<open>series.isin(values)\<close>, \<^verbatim>\<open>~mask\<close> and \<^verbatim>\<open>series < bound\<close>: a missing value is in
  no list and below no bound; a string cannot be compared with a number.\<close>

definition isin :: "val list \<Rightarrow> val list \<Rightarrow> bool list" where
  "isin series values = map (\<lambda>v. v \<in> set values) series"

definition invert :: "bool list \<Rightarrow> bool list" where
  "invert bs = map Not bs"

fun is_str :: "val \<Rightarrow> bool" where
  "is_str (Str s) = True"
| "is_str _ = False"

definition lt_scalar :: "val list \<Rightarrow> real \<Rightarrow> py_error + bool list" where
  "lt_scalar series bound =
     (if list_ex is_str series then Inl TypeError
      else Inr (map (\<lambda>v. case v of Num x \<Rightarrow> x < bound | _ \<Rightarrow> False) series))"

text \<open>\<^verbatim>\<open>df.loc[mask, :]\<close>: the rows where the mask is true.\<close>

definition loc_rows :: "bool list \<Rightarrow> frame \<Rightarrow> frame" where
  "loc_rows bs df = df\<lparr>rows := map snd (filter fst (zip bs (rows df)))\<rparr>"

text \<open>\<^verbatim>\<open>df.loc[:, col] = series\<close>: every row gets the series' value in column \<open>col\<close>.\<close>

definition setitem :: "frame \<Rightarrow> string \<Rightarrow> val list \<Rightarrow> frame" where
  "setitem df col series =
     df\<lparr>rows := map (\<lambda>(r, x). set_cell (columns df) col x r) (zip (rows df) series)\<rparr>"

definition fillna :: "val \<Rightarrow> val list \<Rightarrow> val list" where
  "fillna value series = map (\<lambda>v. if v = NaN then value else v) series"

definition replace_na :: "frame \<Rightarrow> string \<Rightarrow> val \<Rightarrow> py_error + frame" where
  "replace_na df col value =
     (case getitem df col of
        Inl e \<Rightarrow> Inl e
      | Inr series \<Rightarrow> Inr (setitem df col (fillna value series)))"

text \<open>The default-value table; Python keeps one entry for the key written twice
  (\<^verbatim>\<open>"SaleCondition"\<close>), at its first position.\<close>

definition default_values :: "(string \<times> val) list" where
  "default_values =
     [(''Alley'', Str ''None''), (''BedroomAbvGr'', Num 0), (''BsmtQual'', Str ''No''),
      (''BsmtCond'', Str ''No''), (''BsmtExposure'', Str ''No''),
      (''BsmtFinType1'', Str ''No''), (''BsmtFinType2'', Str ''No''), (''BsmtFullBath'', Num 0),
      (''BsmtHalfBath'', Num 0), (''BsmtUnfSF'', Num 0), (''Condition1'', Str ''Norm''),
      (''Condition2'', Str ''Norm''), (''ExterCond'', Str ''TA''), (''ExterQual'', Str ''TA''),
      (''Fence'', Str ''No''), (''Functional'', Str ''Typ''), (''GarageType'', Str ''No''),
      (''GarageFinish'', Str ''No''), (''GarageQual'', Str ''No''),
      (''GarageCond'', Str ''No''), (''GarageArea'', Num 0), (''GarageCars'', Num 0),
      (''HalfBath'', Num 0), (''HeatingQC'', Str ''Ta''), (''KitchenAbvGr'', Num 0),
      (''KitchenQual'', Str ''TA''), (''LotFrontage'', Num 0), (''LotShape'', Str ''Reg''),
      (''MasVnrType'', Str ''None''), (''MasVnrArea'', Num 0), (''MiscFeature'', Str ''No''),
      (''MiscVal'', Num 0), (''OpenPorchSF'', Num 0), (''PavedDrive'', Str ''N''),
      (''PoolQC'', Str ''No''), (''PoolArea'', Num 0), (''SaleCondition'', Str ''Normal''),
      (''ScreenPorch'', Num 0), (''TotRmsAbvGrd'', Num 0), (''Utilities'', Str ''AllPub''),
      (''WoodDeckSF'', Num 0), (''CentralAir'', Num 0), (''EnclosedPorch'', Num 0),
      (''FireplaceQu'', Num 0), (''Fireplaces'', Num 0)]"

text \<open>\<^verbatim>\<open>for column, value in default_values.items(): replace_na(df, column, value)\<close>\<close>

fun fill_defaults :: "(string \<times> val) list \<Rightarrow> frame \<Rightarrow> py_error + frame" where
  "fill_defaults [] df = Inr df"
| "fill_defaults ((column, value) # rest) df =
     (case replace_na df column value of
        Inl e \<Rightarrow> Inl e
      | Inr df' \<Rightarrow> fill_defaults rest df')"

text \<open>
  \<^verbatim>\<open>df.replace({col: {old: new, ...}, ...})\<close>: in each named column that the table has, a
  value equal to a key becomes the key's value, all keys looked up in the column as it was;
  a named column that the table lacks is skipped.
\<close>

definition replace_value :: "(val \<times> val) list \<Rightarrow> val \<Rightarrow> val" where
  "replace_value mapping v = (case map_of mapping v of Some w \<Rightarrow> w | None \<Rightarrow> v)"

definition replace_values :: "(val \<times> val) list \<Rightarrow> val list \<Rightarrow> val list" where
  "replace_values mapping series = map (replace_value mapping) series"

fun replace :: "(string \<times> (val \<times> val) list) list \<Rightarrow> frame \<Rightarrow> frame" where
  "replace [] df = df"
| "replace ((col, mapping) # rest) df =
     replace rest
       (case getitem df col of
          Inl e \<Rightarrow> df
        | Inr series \<Rightarrow> setitem df col (replace_values mapping series))"

definition recoding :: "(string \<times> (val \<times> val) list) list" where
  "recoding =
     [(''MSSubClass'',
        [(Num 20, Str ''SC20''), (Num 30, Str ''SC30''), (Num 40, Str ''SC40''),
         (Num 45, Str ''SC45''), (Num 50, Str ''SC50''), (Num 60, Str ''SC60''),
         (Num 70, Str ''SC70''), (Num 75, Str ''SC75''), (Num 80, Str ''SC80''),
         (Num 85, Str ''SC85''), (Num 90, Str ''SC90''), (Num 120, Str ''SC120''),
         (Num 150, Str ''SC150''), (Num 160, Str ''SC160''), (Num 180, Str ''SC180''),
         (Num 190, Str ''SC190'')]),
      (''MoSold'',
        [(Num 1, Str ''Jan''), (Num 2, Str ''Feb''), (Num 3, Str ''Mar''), (Num 4, Str ''Apr''),
         (Num 5, Str ''May''), (Num 6, Str ''Jun''), (Num 7, Str ''Jul''), (Num 8, Str ''Aug''),
         (Num 9, Str ''Sep''), (Num 10, Str ''Oct''), (Num 11, Str ''Nov''),
         (Num 12, Str ''Dec'')]),
      (''Alley'',
        [(Str ''None'', Num 0), (Str ''Grvl'', Num 1), (Str ''Pave'', Num 2)]),
      (''BsmtCond'',
        [(Str ''No'', Num 0), (Str ''Po'', Num 1), (Str ''Fa'', Num 2), (Str ''TA'', Num 3),
         (Str ''Gd'', Num 4), (Str ''Ex'', Num 5)]),
      (''BsmtExposure'',
        [(Str ''No'', Num 0), (Str ''Mn'', Num 1), (Str ''Av'', Num 2), (Str ''Gd'', Num 3)]),
      (''BsmtFinType1'',
        [(Str ''No'', Num 0), (Str ''Unf'', Num 1), (Str ''LwQ'', Num 2), (Str ''Rec'', Num 3),
         (Str ''BLQ'', Num 4), (Str ''ALQ'', Num 5), (Str ''GLQ'', Num 6)]),
      (''BsmtFinType2'',
        [(Str ''No'', Num 0), (Str ''Unf'', Num 1), (Str ''LwQ'', Num 2), (Str ''Rec'', Num 3),
         (Str ''BLQ'', Num 4), (Str ''ALQ'', Num 5), (Str ''GLQ'', Num 6)]),
      (''BsmtQual'',
        [(Str ''No'', Num 0), (Str ''Po'', Num 1), (Str ''Fa'', Num 2), (Str ''TA'', Num 3),
         (Str ''Gd'', Num 4), (Str ''Ex'', Num 5)]),
      (''ExterCond'',
        [(Str ''Po'', Num 1), (Str ''Fa'', Num 2), (Str ''TA'', Num 3), (Str ''Gd'', Num 4),
         (Str ''Ex'', Num 5)]),
      (''ExterQual'',
        [(Str ''Po'', Num 1), (Str ''Fa'', Num 2), (Str ''TA'', Num 3), (Str ''Gd'', Num 4),
         (Str ''Ex'', Num 5)]),
      (''FireplaceQu'',
        [(Str ''No'', Num 0), (Str ''Po'', Num 1), (Str ''Fa'', Num 2), (Str ''TA'', Num 3),
         (Str ''Gd'', Num 4), (Str ''Ex'', Num 5)]),
      (''Functional'',
        [(Str ''Sal'', Num 1), (Str ''Sev'', Num 2), (Str ''Maj2'', Num 3),
         (Str ''Maj1'', Num 4), (Str ''Mod'', Num 5), (Str ''Min2'', Num 6),
         (Str ''Min1'', Num 7), (Str ''Typ'', Num 8)]),
      (''GarageCond'',
        [(Str ''No'', Num 0), (Str ''Po'', Num 1), (Str ''Fa'', Num 2), (Str ''TA'', Num 3),
         (Str ''Gd'', Num 4), (Str ''Ex'', Num 5)]),
      (''GarageQual'',
        [(Str ''No'', Num 0), (Str ''Po'', Num 1), (Str ''Fa'', Num 2), (Str ''TA'', Num 3),
         (Str ''Gd'', Num 4), (Str ''Ex'', Num 5)]),
      (''HeatingQC'',
        [(Str ''Po'', Num 1), (Str ''Fa'', Num 2), (Str ''TA'', Num 3), (Str ''Gd'', Num 4),
         (Str ''Ex'', Num 5)]),
      (''KitchenQual'',
        [(Str ''Po'', Num 1), (Str ''Fa'', Num 2), (Str ''TA'', Num 3), (Str ''Gd'', Num 4),
         (Str ''Ex'', Num 5)]),
      (''LandSlope'',
        [(Str ''Sev'', Num 1), (Str ''Mod'', Num 2), (Str ''Gtl'', Num 3)]),
      (''LotShape'',
        [(Str ''IR3'', Num 1), (Str ''IR2'', Num 2), (Str ''IR1'', Num 3), (Str ''Reg'', Num 4)]),
      (''PavedDrive'',
        [(Str ''N'', Num 0), (Str ''P'', Num 1), (Str ''Y'', Num 2)]),
      (''PoolQC'',
        [(Str ''No'', Num 0), (Str ''Fa'', Num 1), (Str ''TA'', Num 2), (Str ''Gd'', Num 3),
         (Str ''Ex'', Num 4)]),
      (''Street'',
        [(Str ''Grvl'', Num 0), (Str ''Pave'', Num 1)]),
      (''Utilities'',
        [(Str ''ELO'', Num 1), (Str ''NoSeWa'', Num 2), (Str ''NoSewr'', Num 3),
         (Str ''AllPub'', Num 4)])]"

text \<open>The two row filters, the default fills and the recoding, in the notebook's order.\<close>

definition filter_fill_recode :: "frame \<Rightarrow> py_error + frame" where
  "filter_fill_recode df1 =
     (case getitem df1 ''Neighborhood'' of
        Inl e \<Rightarrow> Inl e
      | Inr neighborhood \<Rightarrow>
          (let df2 = loc_rows (invert (isin neighborhood [Str ''GrnHill'', Str ''Landmrk''])) df1
           in case getitem df2 ''GrLivArea'' of
                Inl e \<Rightarrow> Inl e
              | Inr area \<Rightarrow>
                  (case lt_scalar area 4000 of
                     Inl e \<Rightarrow> Inl e
                   | Inr below \<Rightarrow>
                       (case fill_defaults default_values (loc_rows below df2) of
                          Inl e \<Rightarrow> Inl e
                        | Inr df4 \<Rightarrow> Inr (replace recoding df4)))))"

text \<open>The cleaner: drop the identifier columns, then the steps above.\<close>

definition clean :: "frame \<Rightarrow> py_error + frame" where
  "clean df =
     (case drop_columns [''Order'', ''PID''] df of
        Inl e \<Rightarrow> Inl e
      | Inr df1 \<Rightarrow> filter_fill_recode df1)"

text \<open>
  Rewriting one column value by value: what reading a column, mapping a function over the
  series and storing it back amounts to.  It is used to state what the steps above do.
\<close>

definition map_column :: "string \<Rightarrow> (val \<Rightarrow> val) \<Rightarrow> frame \<Rightarrow> frame" where
  "map_column col f df =
     df\<lparr>rows := map (\<lambda>r. set_cell (columns df) col (f (cell_value (columns df) r col)) r) (rows df)\<rparr>"

text \<open>
  A small raw table for concrete runs: the identifier columns, the two filtered columns, two
  recoded columns and every column of the default-value table.  Its first row is kept, the
  second is in an excluded neighbourhood, the third has too large a living area.
\<close>

definition raw_example :: frame where
  "raw_example =
     \<lparr>columns = [''Order'', ''PID'', ''Neighborhood'', ''GrLivArea'', ''MSSubClass'', ''Street'']
                  @ map fst default_values,
      rows = [ [Num 1, Num 526301100, Str ''NAmes'', Num 1656, Num 20, Str ''Pave'']
                @ replicate 45 NaN,
              [Num 2, Num 526350040, Str ''GrnHill'', Num 896, Num 20, Str ''Pave'']
                @ replicate 45 NaN,
              [Num 3, Num 526351010, Str ''NAmes'', Num 4676, Num 60, Str ''Grvl'']
                @ replicate 45 NaN]\<rparr>"

definition cleaned_example :: frame where
  "cleaned_example =
     \<lparr>columns = [''Neighborhood'', ''GrLivArea'', ''MSSubClass'', ''Street'']
                  @ map fst default_values,
      rows = [ [Str ''NAmes'', Num 1656, Str ''SC20'', Num 1, Num 0, Num 0, Num 0, Num 0,
               Num 0, Num 0, Num 0, Num 0, Num 0, Num 0, Str ''Norm'', Str ''Norm'',
               Num 3, Num 3, Str ''No'', Num 8, Str ''No'', Str ''No'', Num 0, Num 0,
               Num 0, Num 0, Num 0, Str ''Ta'', Num 0, Num 3, Num 0, Num 4,
               Str ''None'', Num 0, Str ''No'', Num 0, Num 0, Num 0, Num 0, Num 0,
               Str ''Normal'', Num 0, Num 0, Num 4, Num 0, Num 0, Num 0, Num 0, Num 0]]\<rparr>"

text \<open>The raw table after the default fills alone, and a small table to recode.\<close>

definition filled_example :: frame where
  "filled_example =
     \<lparr>columns = [''Order'', ''PID'', ''Neighborhood'', ''GrLivArea'', ''MSSubClass'', ''Street'']
                  @ map fst default_values,
      rows = [ [Num 1, Num 526301100, Str ''NAmes'', Num 1656, Num 20, Str ''Pave'']
                @ map snd default_values,
              [Num 2, Num 526350040, Str ''GrnHill'', Num 896, Num 20, Str ''Pave'']
                @ map snd default_values,
              [Num 3, Num 526351010, Str ''NAmes'', Num 4676, Num 60, Str ''Grvl'']
                @ map snd default_values]\<rparr>"

definition recode_example :: frame where
  "recode_example =
     \<lparr>columns = [''Alley'', ''MoSold'', ''LotArea''],
      rows = [ [Str ''Grvl'', Num 3, Num 3],
              [Str ''Shared'', Num 13, Str ''Grvl'']]\<rparr>"

section \<open>Double-precision arithmetic\<close>

text \<open>
  scikit-learn and statsmodels compute with IEEE doubles: the result of each arithmetic
  operation is the exact result rounded to the nearest number with a significand of 53 bits,
  a tie going to the even significand.  \<open>exponent x\<close> is the \<open>e\<close> with
  \<open>2 powi e \<le> \<bar>x\<bar> < 2 powi (e + 1)\<close>.  The exponent range is taken as unbounded: overflow,
  underflow and subnormal numbers are left out.
\<close>

definition exponent :: "real \<Rightarrow> int" where
  "exponent x =
     (if 1 \<le> \<bar>x\<bar> then bitlen \<lfloor>\<bar>x\<bar>\<rfloor> - 1 else - bitlen (\<lceil>1 / \<bar>x\<bar>\<rceil> - 1))"

definition round_half_even :: "real \<Rightarrow> int" where
  "round_half_even y =
     (let f = \<lfloor>y\<rfloor>; d = y - of_int f
      in if d < 1 / 2 then f else if 1 / 2 < d then f + 1 else if even f then f else f + 1)"

definition round_double :: "real \<Rightarrow> real" where
  "round_double x =
     (if x = 0 then 0
      else (let q = 2 powi (exponent x - 52)
            in sgn x * (q * of_int (round_half_even (\<bar>x\<bar> / q)))))"

text \<open>\<^verbatim>\<open>np.finfo(np.float64).eps\<close>\<close>

definition eps :: real where
  "eps = 2 powi (- 52)"

section \<open>Feature transformer\<close>

text \<open>
  The transformer works on the cleaned table without its target column.  In pandas every
  column has a dtype, and \<^verbatim>\<open>select_dtypes\<close> splits the columns by it: \<^verbatim>\<open>object\<close> or not.
  The dtypes of a table are given here by a function from the column labels.  A column of
  dtype \<^verbatim>\<open>object\<close> can hold strings, numbers and missing values.
\<close>

datatype dtype = Number | Object

definition column_values :: "frame \<Rightarrow> string \<Rightarrow> val list" where
  "column_values df c = map (\<lambda>r. cell_value (columns df) r c) (rows df)"

definition numerical_features :: "(string \<Rightarrow> dtype) \<Rightarrow> frame \<Rightarrow> string list" where
  "numerical_features dtypes df = filter (\<lambda>c. dtypes c \<noteq> Object) (columns df)"

definition categorical_features :: "(string \<Rightarrow> dtype) \<Rightarrow> frame \<Rightarrow> string list" where
  "categorical_features dtypes df = filter (\<lambda>c. dtypes c = Object) (columns df)"

text \<open>\<^verbatim>\<open>SimpleImputer(strategy="median")\<close>: the median of the values that are present, for an
  even number of them the mean of the middle two; a column with none has no statistic and
  is left out of the output.\<close>

fun numbers :: "val list \<Rightarrow> real list" where
  "numbers [] = []"
| "numbers (Num x # vs) = x # numbers vs"
| "numbers (v # vs) = numbers vs"

definition median :: "real list \<Rightarrow> real option" where
  "median xs =
     (if xs = [] then None
      else (let s = sort xs; n = length s
            in if odd n then Some (s ! (n div 2))
               else Some (round_double (round_double (s ! (n div 2 - 1) + s ! (n div 2)) / 2))))"

fun impute :: "real \<Rightarrow> val \<Rightarrow> real" where
  "impute m (Num x) = x"
| "impute m v = m"

text \<open>
  \<^verbatim>\<open>MinMaxScaler()\<close>, feature range \<open>(0, 1)\<close>, no clipping.  Fitting takes the minimum and
  the maximum of the column; \<open>scale_\<close> is \<open>(1 - 0) / data_range\<close>, where a range below
  \<open>10 * eps\<close> counts as 1, and \<open>min_\<close> is \<open>0 - data_min * scale_\<close>.  Transforming
  multiplies by \<open>scale_\<close> and then adds \<open>min_\<close>.
\<close>

definition minmax_fit :: "real list \<Rightarrow> real \<times> real" where
  "minmax_fit xs =
     (let data_min = Min (set xs); data_max = Max (set xs);
          data_range = round_double (data_max - data_min);
          scale = round_double ((1 - 0) / (if data_range < 10 * eps then 1 else data_range))
      in (scale, round_double (0 - round_double (data_min * scale))))"

definition minmax_transform :: "real \<Rightarrow> real \<Rightarrow> real \<Rightarrow> real" where
  "minmax_transform scale mn x = round_double (round_double (x * scale) + mn)"

text \<open>
  \<^verbatim>\<open>OneHotEncoder(drop="first", handle_unknown="ignore")\<close>: the categories of a column are
  its distinct values in sorted order, a missing value last; strings and numbers in one
  column cannot be sorted.  A value's row of indicators has one entry for each category but
  the first: all zero for the first category and for a value that is no category, a single 1
  at the value's category otherwise.
\<close>

fun is_num :: "val \<Rightarrow> bool" where
  "is_num (Num x) = True"
| "is_num v = False"

fun strings :: "val list \<Rightarrow> string list" where
  "strings [] = []"
| "strings (Str s # vs) = s # strings vs"
| "strings (v # vs) = strings vs"

definition one_hot_fit :: "val list \<Rightarrow> py_error + val list" where
  "one_hot_fit xs =
     (if list_ex is_num xs \<and> list_ex is_str xs then Inl TypeError
      else Inr (map Str (sort (remdups (strings xs))) @ map Num (sort (remdups (numbers xs)))
                  @ (if NaN \<in> set xs then [NaN] else [])))"

fun index_of :: "'a \<Rightarrow> 'a list \<Rightarrow> nat option" where
  "index_of v [] = None"
| "index_of v (x # xs) = (if v = x then Some 0 else map_option Suc (index_of v xs))"

definition one_hot_row :: "val list \<Rightarrow> val \<Rightarrow> real list" where
  "one_hot_row cats v =
     (let zeros = replicate (length cats - 1) 0
      in case index_of v cats of
           None \<Rightarrow> zeros
         | Some i \<Rightarrow> if i = 0 then zeros else zeros[i - 1 := 1])"

text \<open>
  What fitting leaves for one input column: for a numerical column its median and the
  scaler's two numbers, or nothing when the column was empty; for a categorical column its
  categories.  \<open>width\<close> is the number of output columns it produces.
\<close>

datatype column_fit =
    Scaled string real real real
  | Empty string
  | OneHot string "val list"

fun width :: "column_fit \<Rightarrow> nat" where
  "width (Scaled c m scale mn) = 1"
| "width (Empty c) = 0"
| "width (OneHot c cats) = length cats - 1"

fun fit_column :: "column_fit \<Rightarrow> string" where
  "fit_column (Scaled c m scale mn) = c"
| "fit_column (Empty c) = c"
| "fit_column (OneHot c cats) = c"

fun categories :: "column_fit \<Rightarrow> val list" where
  "categories (OneHot c cats) = cats"
| "categories f = []"

record fitted =
  numerical :: "column_fit list"
  categorical :: "column_fit list"

definition numerical_fit :: "frame \<Rightarrow> string \<Rightarrow> column_fit" where
  "numerical_fit df c =
     (case median (numbers (column_values df c)) of
        None \<Rightarrow> Empty c
      | Some m \<Rightarrow> (case minmax_fit (map (impute m) (column_values df c)) of
                    (scale, mn) \<Rightarrow> Scaled c m scale mn))"

fun categorical_fit :: "frame \<Rightarrow> string list \<Rightarrow> py_error + column_fit list" where
  "categorical_fit df [] = Inr []"
| "categorical_fit df (c # cs) =
     (case one_hot_fit (column_values df c) of
        Inl e \<Rightarrow> Inl e
      | Inr cats \<Rightarrow>
          (case categorical_fit df cs of
             Inl e \<Rightarrow> Inl e
           | Inr fs \<Rightarrow> Inr (OneHot c cats # fs)))"

text \<open>
  \<^verbatim>\<open>column_transformer.fit(df, y)\<close>: the numerical pipeline first, then the categorical one.
  A table without rows is refused; so are a string in a numerical column and a numerical
  block in which every column is empty (the scaler gets no column).
\<close>

definition column_transformer_fit :: "(string \<Rightarrow> dtype) \<Rightarrow> frame \<Rightarrow> py_error + fitted" where
  "column_transformer_fit dtypes df =
     (if rows df = [] \<and> columns df \<noteq> [] then Inl (ValueError ''Found array with 0 sample(s)'')
      else if list_ex (\<lambda>c. list_ex is_str (column_values df c)) (numerical_features dtypes df)
      then Inl (ValueError ''could not convert string to float'')
      else (let nums = map (numerical_fit df) (numerical_features dtypes df)
            in if nums \<noteq> [] \<and> list_all (\<lambda>f. width f = 0) nums
               then Inl (ValueError ''Found array with 0 feature(s)'')
               else (case categorical_fit df (categorical_features dtypes df) of
                       Inl e \<Rightarrow> Inl e
                     | Inr cats \<Rightarrow> Inr \<lparr>numerical = nums, categorical = cats\<rparr>)))"

text \<open>
  \<^verbatim>\<open>column_transformer.transform(df)\<close>: every row becomes the numerical block followed by
  the one-hot block.  A fitted column that the table lacks is a KeyError, a string in a
  numerical column a ValueError; the encoder, whose categories were fitted on columns of
  dtype \<^verbatim>\<open>object\<close>, raises TypeError on a column of another dtype.
\<close>

fun encode :: "string list \<Rightarrow> val list \<Rightarrow> column_fit \<Rightarrow> real list" where
  "encode cs r (Scaled c m scale mn) = [minmax_transform scale mn (impute m (cell_value cs r c))]"
| "encode cs r (Empty c) = []"
| "encode cs r (OneHot c cats) = one_hot_row cats (cell_value cs r c)"

definition column_transformer_transform ::
  "fitted \<Rightarrow> (string \<Rightarrow> dtype) \<Rightarrow> frame \<Rightarrow> py_error + real list list" where
  "column_transformer_transform ft dtypes df =
     (case filter (\<lambda>c. c \<notin> set (columns df)) (map fit_column (numerical ft @ categorical ft)) of
        c # _ \<Rightarrow> Inl (KeyError c)
      | [] \<Rightarrow>
          if rows df = [] \<and> numerical ft @ categorical ft \<noteq> []
          then Inl (ValueError ''Found array with 0 sample(s)'')
          else if list_ex (\<lambda>f. list_ex is_str (column_values df (fit_column f))) (numerical ft)
          then Inl (ValueError ''could not convert string to float'')
          else if list_ex (\<lambda>f. dtypes (fit_column f) \<noteq> Object) (categorical ft)
          then Inl TypeError
          else Inr (map (\<lambda>r. concat (map (encode (columns df) r) (numerical ft @ categorical ft)))
                      (rows df)))"

text \<open>The number of numerical output columns before the one-hot block; the fitted
  numerical columns that produce them, in order (an empty column produces none); and the
  indicator columns of the \<open>p\<close>-th categorical variable within an output row.\<close>

definition n_numeric :: "fitted \<Rightarrow> nat" where
  "n_numeric ft = sum_list (map width (numerical ft))"


definition indicator_block :: "fitted \<Rightarrow> nat \<Rightarrow> real list \<Rightarrow> real list" where
  "indicator_block ft p row =
     take (width (categorical ft ! p))
       (drop (n_numeric ft + sum_list (map width (take p (categorical ft)))) row)"

section \<open>Regression fit and the Breusch-Pagan test\<close>

text \<open>
  \<^verbatim>\<open>sm.OLS(y, df, hasconst=False).fit()\<close>.  The constructor refuses targets and a design
  matrix of different lengths and keeps the matrix as it is passed in: no column is added.
  Fitting raises on a design matrix without a column; otherwise it stores what the
  library's least-squares solver returns for that matrix and the targets, the coefficients
  and the residuals.  The solver is a parameter.
\<close>

record ols_model =
  endog :: "real list"
  exog :: "real list list"
  hasconst :: bool

record ols_results =
  res_model :: ols_model
  res_params :: "real list"
  res_resid :: "real list"

definition ncols :: "real list list \<Rightarrow> nat" where
  "ncols x = (case x of [] \<Rightarrow> 0 | r # _ \<Rightarrow> length r)"

definition column_of :: "real list list \<Rightarrow> nat \<Rightarrow> real list" where
  "column_of x j = map (\<lambda>r. r ! j) x"

definition OLS :: "real list \<Rightarrow> real list list \<Rightarrow> bool \<Rightarrow> py_error + ols_model" where
  "OLS y x hc =
     (if length y \<noteq> length x then Inl (ValueError ''endog and exog matrices are different sizes'')
      else Inr \<lparr>endog = y, exog = x, hasconst = hc\<rparr>)"

definition ols_fit ::
  "(real list list \<Rightarrow> real list \<Rightarrow> real list \<times> real list) \<Rightarrow> ols_model \<Rightarrow> py_error + ols_results" where
  "ols_fit lstsq m =
     (if ncols (exog m) = 0 then Inl (ValueError ''zero-size array to reduction operation'')
      else (case lstsq (exog m) (endog m) of
              (b, r) \<Rightarrow> Inr \<lparr>res_model = m, res_params = b, res_resid = r\<rparr>))"





text \<open>
  \<^verbatim>\<open>het_breuschpagan(resid, exog_het)\<close> first checks its regressors: at least two columns,
  one of them constant and not zero; otherwise it raises.  The check takes the maximum and
  the minimum of every column, which itself raises on a matrix without rows.  The
  statistics computed when the check passes are a parameter.
\<close>

definition check_het_test :: "real list list \<Rightarrow> bool" where
  "check_het_test x =
     (\<not> (\<not> list_ex (\<lambda>j. let x_max = Max (set (column_of x j))
                       in round_double (x_max - Min (set (column_of x j))) = 0 \<and> x_max \<noteq> 0)
               [0..<ncols x]
         \<or> ncols x < 2))"

definition het_breuschpagan ::
  "(real list \<Rightarrow> real list list \<Rightarrow> 's list) \<Rightarrow> real list \<Rightarrow> real list list \<Rightarrow> string + 's list" where
  "het_breuschpagan lm_test resid exog_het =
     (if exog_het = []
      then Inl ''zero-size array to reduction operation maximum which has no identity''
      else if check_het_test exog_het then Inr (lm_test resid exog_het)
      else Inl ''The Breusch-Pagan test requires exog to have at least two columns where one is a constant.'')"

section \<open>Tables for concrete runs of the transformer and the fit\<close>

text \<open>Two numerical columns (one with a missing value), a categorical column with three
  categories and one with a single category; and a table with values not seen in it.\<close>

definition features_example :: frame where
  "features_example =
     \<lparr>columns = [''LotArea'', ''Fireplaces'', ''MSZoning'', ''Heating''],
      rows = [ [Num 8000, Num 0, Str ''RL'', Str ''GasA''],
              [Num 8512, NaN, Str ''RM'', Str ''GasA''],
              [Num 9024, Num 2, Str ''FV'', Str ''GasA''],
              [Num 12096, Num 1, Str ''RL'', Str ''GasA'']]\<rparr>"

definition features_dtypes :: "string \<Rightarrow> dtype" where
  "features_dtypes c = (if c \<in> set [''MSZoning'', ''Heating''] then Object else Number)"

definition unseen_example :: frame where
  "unseen_example =
     \<lparr>columns = [''LotArea'', ''Fireplaces'', ''MSZoning'', ''Heating''],
      rows = [ [Num 20192, Num 1, Str ''RH'', Str ''Wall'']]\<rparr>"

definition fitted_example :: fitted where
  "fitted_example =
     \<lparr>numerical = [Scaled ''LotArea'' 8768 (1 / 4096) (- (125 / 64)),
                   Scaled ''Fireplaces'' 1 (1 / 2) 0],
      categorical = [OneHot ''MSZoning'' [Str ''FV'', Str ''RL'', Str ''RM''],
                     OneHot ''Heating'' [Str ''GasA'']]\<rparr>"


definition unseen_matrix :: "real list list" where
  "unseen_matrix = [ [381 / 128, 1 / 2, 0, 0]]"


definition solver_example :: "real list list \<Rightarrow> real list \<Rightarrow> real list \<times> real list" where
  "solver_example x y = ([8, 4, 1, 2], [0, 0, 0, 0])"

text \<open>A column whose maximum the scaler maps above 1.\<close>

definition areas_example :: frame where
  "areas_example = \<lparr>columns = [''LotArea''], rows = [ [Num 278], [Num 96532]]\<rparr>"

definition areas_dtypes :: "string \<Rightarrow> dtype" where
  "areas_dtypes c = Number"



text \<open>A table whose only column has a single category: the transformer's output has no
  column.  A table with a column of dtype \<^verbatim>\<open>object\<close> that holds numbers only, and the same
  column with dtype float and nothing but missing values.\<close>

definition single_category_example :: frame where
  "single_category_example = \<lparr>columns = [''Street''], rows = [ [Str ''Pave''], [Str ''Pave'']]\<rparr>"

definition object_dtypes :: "string \<Rightarrow> dtype" where
  "object_dtypes c = Object"

definition object_numbers_example :: frame where
  "object_numbers_example = \<lparr>columns = [''CentralAir''], rows = [ [Num 1], [Num 0], [Num 1]]\<rparr>"

definition all_missing_example :: frame where
  "all_missing_example = \<lparr>columns = [''CentralAir''], rows = [ [NaN], [NaN]]\<rparr>"

section \<open>Properties of the runner\<close>

lemma foldl_stat_lines:
  "foldl (\<lambda>text (name, stat). text @ indent @ name @ '': '' @ str stat @ [nl]) acc ps
     = acc @ concat (map (\<lambda>(name, stat). stat_line str name stat) ps)"
  by (induction ps arbitrary: acc) (auto simp: stat_line_def)

lemma zip_as_index_map:
  "zip xs ys = map (\<lambda>i. (xs ! i, ys ! i)) [0..<min (length xs) (length ys)]"
  by (rule nth_equalityI) auto

lemma display_test_success:
  assumes "test model = Inr score"
  shows "display_test str model title stats_names test out =
           Inr (out @ title @ '' test:'' @ [nl]
                  @ concat (map (\<lambda>i. stat_line str (stats_names ! i) (score ! i))
                              [0..<min (length stats_names) (length score)])
                  @ [nl])"
  unfolding display_test_def py_print_def foldl_stat_lines zip_as_index_map
  using assms by (simp add: comp_def)

lemma display_test_failure:
  "test model = Inl e \<Longrightarrow> display_test str model title stats_names test out = Inl e"
  by (simp add: display_test_def)

text \<open>
  C9.  A call that declares one name for a test that returns two statistics prints one
  statistic line: the second statistic has no line, and the output is not the block of the
  two returned statistics.
\<close>

theorem display_test_unnamed_statistic_counterexample:
  "returns_two () = Inr [''1'', ''2'']
   \<and> display_test id () ''T'' [''a''] returns_two []
       = Inr (''T test:'' @ [nl] @ ''    a: 1'' @ [nl] @ [nl])
   \<and> display_test id () ''T'' [''a''] returns_two [] \<noteq> Inr (block id ''T'' [''a''] [''1'', ''2''])"
proof -
  have out: "display_test id () ''T'' [''a''] returns_two []
               = Inr (''T test:'' @ [nl] @ ''    a: 1'' @ [nl] @ [nl])"
    by (simp add: display_test_def returns_two_def py_print_def indent_def eval_nat_numeral)
  have "length (''T test:'' @ [nl] @ ''    a: 1'' @ [nl] @ [nl])
          \<noteq> length (block id ''T'' [''a''] [''1'', ''2''])"
    by (simp add: block_def stat_line_def indent_def upt_rec)
  then have "''T test:'' @ [nl] @ ''    a: 1'' @ [nl] @ [nl] \<noteq> block id ''T'' [''a''] [''1'', ''2'']"
    by (rule contrapos_nn) (simp only:)
  with out show ?thesis by (simp add: returns_two_def)
qed

text \<open>
  C9, amended.  When the test returns its statistics, no more of them than there are declared names
  (as in each of the notebook's four calls), \<open>display_test\<close> appends one block to the output:
  the line \<open><title> test:\<close>, then for each returned statistic, in order, the line of four
  spaces, its name, a colon and a space, and its value, then an empty line, which separates
  the block from the next one.
\<close>

theorem display_test_prints_block:
  assumes "test model = Inr score" and "length score \<le> length stats_names"
  shows "display_test str model title stats_names test out =
           Inr (out @ block str title stats_names score)"
  using assms by (simp add: display_test_success block_def min_absorb2)

theorem display_test_prints_block_witness:
  "display_test (\<lambda>s. s) () ''Rainbow'' [''score'', ''p-value''] (\<lambda>m. Inr [''1.5'', ''0.25'']) []
     = Inr (''Rainbow test:'' @ [nl] @ ''    score: 1.5'' @ [nl] @ ''    p-value: 0.25'' @ [nl] @ [nl])"
  using display_test_prints_block
    [of "\<lambda>m. Inr [''1.5'', ''0.25'']" "()" "[''1.5'', ''0.25'']" "[''score'', ''p-value'']"
        "\<lambda>s. s" "''Rainbow''" "[]"]
  by (simp add: block_def stat_line_def indent_def upt_rec eval_nat_numeral)

text \<open>
  C10.  The declared names and the returned statistics are paired by position with \<open>zip\<close>:
  a successful test prints exactly as many statistic lines as the shorter of the two lists
  has elements, line \<open>i\<close> pairing name \<open>i\<close> with statistic \<open>i\<close>; a mismatch of the two
  lengths is no error, the call still returns normally.
\<close>

theorem display_test_zip_pairing:
  assumes "test model = Inr score"
  shows "\<exists>ls. display_test str model title stats_names test out =
                 Inr (out @ title @ '' test:'' @ [nl] @ concat ls @ [nl])
             \<and> length ls = min (length stats_names) (length score)
             \<and> (\<forall>i < length ls. ls ! i = stat_line str (stats_names ! i) (score ! i))"
proof -
  let ?ls = "map (\<lambda>i. stat_line str (stats_names ! i) (score ! i))
               [0..<min (length stats_names) (length score)]"
  have "display_test str model title stats_names test out =
          Inr (out @ title @ '' test:'' @ [nl] @ concat ?ls @ [nl])"
    using assms by (rule display_test_success)
  moreover have "length ?ls = min (length stats_names) (length score)" by simp
  moreover have "\<forall>i < length ?ls. ?ls ! i = stat_line str (stats_names ! i) (score ! i)" by simp
  ultimately show ?thesis by blast
qed

theorem display_test_zip_pairing_witness:
  "\<exists>ls. display_test (\<lambda>s. s) () ''T'' [''a''] (\<lambda>m. Inr [''1'', ''2'']) []
            = Inr (''T test:'' @ [nl] @ concat ls @ [nl])
        \<and> length ls = 1 \<and> ls ! 0 = stat_line (\<lambda>s. s) ''a'' ''1''"
  using display_test_zip_pairing
    [of "\<lambda>m. Inr [''1'', ''2'']" "()" "[''1'', ''2'']" "\<lambda>s. s" "''T''" "[''a'']" "[]"]
  by auto

text \<open>
  C1.  The Rainbow cell calls \<open>display_test\<close> outside any \<^verbatim>\<open>try\<close>: when that test raises,
  the exception leaves the run, nothing is printed and the three remaining tests are
  never called.  The three wrapped cells do print the message and go on.
\<close>

theorem rainbow_failure_aborts:
  "diagnostics str (\<lambda>m. Inl msg) hc jb bp model resid out = (out, Some msg)"
  by (simp add: diagnostics_def display_test_def)

lemma rainbow_failure_example:
  "diagnostics (\<lambda>s. s) (\<lambda>m. Inl ''zero-size array'')
     (\<lambda>m. Inr [''0.7'', ''0.4'']) (\<lambda>r. Inr [''6.1'', ''0.04'', ''0.5'', ''3.1''])
     (\<lambda>r. Inl ''no constant'') () () []
   = ([], Some ''zero-size array'')"
  by (simp add: diagnostics_def display_test_def)

lemma try_display_test_failure:
  "test model = Inl e \<Longrightarrow> try_display_test str model title stats_names test out = out @ e @ [nl]"
  by (simp add: try_display_test_def display_test_def py_print_def)

lemma try_display_test_success:
  "test model = Inr score \<Longrightarrow>
     \<exists>text. display_test str model title stats_names test out = Inr (out @ text)
          \<and> try_display_test str model title stats_names test out = out @ text"
  by (simp add: try_display_test_def display_test_def py_print_def)

lemma diagnostics_after_rainbow:
  assumes "linear_rainbow model = Inr score"
  shows "\<exists>out1. display_test str model ''Rainbow'' [''score'', ''p-value''] linear_rainbow out = Inr out1
           \<and> diagnostics str linear_rainbow hc jb bp model resid out =
               (try_display_test str resid ''Breusch-Pagan''
                  [''LM score'', ''LM p-value'', ''F score'', ''F p-value''] bp
                  (try_display_test str resid ''Jarque-Bera''
                     [''score'', ''p-value'', ''skew'', ''kurtosis''] jb
                     (try_display_test str model ''Harvey Collier'' [''score'', ''p-value''] hc out1)),
                None)"
  using assms by (simp add: diagnostics_def display_test_def Let_def)

text \<open>A whole run in which every test returns as many statistics as its cell declares
  names: four blocks, each closed by its empty line.\<close>

lemma try_display_test_block:
  assumes "test model = Inr score" and "length score \<le> length stats_names"
  shows "try_display_test str model title stats_names test out = out @ block str title stats_names score"
  using assms
  by (simp add: try_display_test_def display_test_success block_def min_absorb2)

lemma diagnostics_all_succeed:
  assumes "rb model = Inr [a1, a2]" and "hc model = Inr [b1, b2]"
    and "jb resid = Inr [c1, c2, c3, c4]" and "bp resid = Inr [d1, d2, d3, d4]"
  shows "diagnostics str rb hc jb bp model resid out
         = (out @ block str ''Rainbow'' [''score'', ''p-value''] [a1, a2]
                @ block str ''Harvey Collier'' [''score'', ''p-value''] [b1, b2]
                @ block str ''Jarque-Bera'' [''score'', ''p-value'', ''skew'', ''kurtosis'']
                    [c1, c2, c3, c4]
                @ block str ''Breusch-Pagan''
                    [''LM score'', ''LM p-value'', ''F score'', ''F p-value''] [d1, d2, d3, d4],
            None)"
proof -
  have r: "display_test str model ''Rainbow'' [''score'', ''p-value''] rb out
             = Inr (out @ block str ''Rainbow'' [''score'', ''p-value''] [a1, a2])"
    using assms(1) by (simp add: display_test_success block_def)
  have h: "try_display_test str model ''Harvey Collier'' [''score'', ''p-value''] hc o1
             = o1 @ block str ''Harvey Collier'' [''score'', ''p-value''] [b1, b2]" for o1
    using assms(2) by (intro try_display_test_block) simp_all
  have j: "try_display_test str resid ''Jarque-Bera'' [''score'', ''p-value'', ''skew'', ''kurtosis'']
             jb o2
             = o2 @ block str ''Jarque-Bera'' [''score'', ''p-value'', ''skew'', ''kurtosis'']
                      [c1, c2, c3, c4]" for o2
    using assms(3) by (intro try_display_test_block) simp_all
  have b: "try_display_test str resid ''Breusch-Pagan''
             [''LM score'', ''LM p-value'', ''F score'', ''F p-value''] bp o3
             = o3 @ block str ''Breusch-Pagan''
                      [''LM score'', ''LM p-value'', ''F score'', ''F p-value''] [d1, d2, d3, d4]" for o3
    using assms(4) by (intro try_display_test_block) simp_all
  show ?thesis
    unfolding diagnostics_def r sum.case Let_def h j b by (simp only: append_assoc)
qed

section \<open>Properties of the cleaner\<close>

subsection \<open>Cells\<close>

lemma map_of_set_cell_raw:
  "map_of (zip cs (map (\<lambda>(c, v). if c = col then x else v) (zip cs r))) c
     = (if c = col then map_option (\<lambda>_. x) (map_of (zip cs r) c) else map_of (zip cs r) c)"
proof (induction cs arbitrary: r)
  case Nil
  show ?case by simp
next
  case (Cons k cs)
  show ?case
  proof (cases r)
    case Nil
    then show ?thesis by simp
  next
    case (Cons v r')
    with Cons.IH [of r'] show ?thesis by auto
  qed
qed

lemma cell_set_cell:
  "cell cs (set_cell cs col x r) c = (if c = col then map_option (\<lambda>_. x) (cell cs r c) else cell cs r c)"
  unfolding cell_def set_cell_def by (rule map_of_set_cell_raw)

lemma cell_value_eq:
  "cell cs r c = Some v \<Longrightarrow> cell_value cs r c = v"
  by (simp add: cell_value_def)

lemma cell_set_cell_value:
  "cell cs (set_cell cs col (f (cell_value cs r col)) r) c
     = (if c = col then map_option f (cell cs r c) else cell cs r c)"
  by (cases "cell cs r col") (auto simp: cell_set_cell cell_value_def)

lemma length_set_cell: "length (set_cell cs col x r) = min (length cs) (length r)"
  by (simp add: set_cell_def)

lemma set_cell_absent: "col \<notin> set cs \<Longrightarrow> length r \<le> length cs \<Longrightarrow> set_cell cs col x r = r"
proof (induction cs arbitrary: r)
  case Nil then show ?case by (simp add: set_cell_def)
next
  case (Cons k cs)
  then show ?case by (cases r) (auto simp: set_cell_def)
qed

lemma set_cell_same:
  "distinct cs \<Longrightarrow> length r \<le> length cs \<Longrightarrow> cell cs r col = Some x \<Longrightarrow> set_cell cs col x r = r"
proof (induction cs arbitrary: r)
  case Nil then show ?case by (simp add: set_cell_def)
next
  case (Cons k cs)
  show ?case
  proof (cases r)
    case Nil then show ?thesis by (simp add: set_cell_def)
  next
    case (Cons v r')
    show ?thesis
    proof (cases "k = col")
      case True
      with Cons.prems Cons have "v = x" "col \<notin> set cs" "length r' \<le> length cs"
        by (auto simp: cell_def)
      with set_cell_absent [of col cs r' x] True Cons show ?thesis
        by (simp add: set_cell_def)
    next
      case False
      with Cons.prems Cons Cons.IH [of r'] show ?thesis
        by (simp add: set_cell_def cell_def)
    qed
  qed
qed

lemma filter_by_mask: "map snd (filter fst (zip (map p xs) xs)) = filter p xs"
  by (induction xs) auto


lemma cell_Some_if_ok:
  "c \<in> set cs \<Longrightarrow> length r = length cs \<Longrightarrow> \<exists>v. cell cs r c = Some v"
  unfolding cell_def
  using map_of_zip_is_Some [of cs r c] by simp

lemma cell_None_if_absent: "c \<notin> set cs \<Longrightarrow> cell cs r c = None"
  unfolding cell_def
  by (auto simp: map_of_eq_None_iff dest: set_zip_leftD)

subsection \<open>Rewriting a column\<close>

lemma columns_map_column [simp]: "columns (map_column col f df) = columns df"
  by (simp add: map_column_def)

lemma rows_map_column:
  "rows (map_column col f df)
     = map (\<lambda>r. set_cell (columns df) col (f (cell_value (columns df) r col)) r) (rows df)"
  by (simp add: map_column_def)

lemma frame_ok_map_column: "frame_ok df \<Longrightarrow> frame_ok (map_column col f df)"
  by (auto simp: frame_ok_def map_column_def list_all_iff length_set_cell)

lemma zip_map_self: "zip xs (map g xs) = map (\<lambda>x. (x, g x)) xs"
  by (induction xs) auto

lemma setitem_map_getitem:
  "setitem df col (map h (map (\<lambda>r. cell_value (columns df) r col) (rows df))) = map_column col h df"
  by (simp add: setitem_def map_column_def zip_map_self comp_def)

lemma replace_na_eq:
  "replace_na df col value =
     (if col \<in> set (columns df) then Inr (map_column col (\<lambda>v. if v = NaN then value else v) df)
      else Inl (KeyError col))"
  using setitem_map_getitem [of df col "\<lambda>v. if v = NaN then value else v"]
  by (simp add: replace_na_def getitem_def fillna_def)

lemma replace_Cons_eq:
  "replace ((col, mapping) # rest) df =
     replace rest (if col \<in> set (columns df) then map_column col (replace_value mapping) df else df)"
  using setitem_map_getitem [of df col "replace_value mapping"]
  by (simp add: getitem_def replace_values_def)

lemma map_column_absent:
  assumes "frame_ok df" and "col \<notin> set (columns df)"
  shows "map_column col f df = df"
proof -
  have "\<And>r. r \<in> set (rows df) \<Longrightarrow>
          set_cell (columns df) col (f (cell_value (columns df) r col)) r = r"
    using assms by (intro set_cell_absent) (auto simp: frame_ok_def list_all_iff)
  then have "map (\<lambda>r. set_cell (columns df) col (f (cell_value (columns df) r col)) r) (rows df)
               = rows df"
    by (simp add: map_idI)
  then show ?thesis by (simp add: map_column_def)
qed

lemma map_column_fixed:
  assumes "frame_ok df"
    and "\<And>r. r \<in> set (rows df) \<Longrightarrow> f (cell_value (columns df) r col) = cell_value (columns df) r col"
  shows "map_column col f df = df"
proof (cases "col \<in> set (columns df)")
  case False
  with assms(1) show ?thesis by (rule map_column_absent)
next
  case True
  have "set_cell (columns df) col (f (cell_value (columns df) r col)) r = r"
    if "r \<in> set (rows df)" for r
  proof -
    from that assms(1) have len: "length r = length (columns df)" and d: "distinct (columns df)"
      by (auto simp: frame_ok_def list_all_iff)
    from cell_Some_if_ok [OF True len] obtain v where v: "cell (columns df) r col = Some v" ..
    then have "cell_value (columns df) r col = v" by (rule cell_value_eq)
    with assms(2) [OF that] v d len show ?thesis
      by (simp add: set_cell_same)
  qed
  then have "map (\<lambda>r. set_cell (columns df) col (f (cell_value (columns df) r col)) r) (rows df)
               = rows df"
    by (simp add: map_idI)
  then show ?thesis by (simp add: map_column_def)
qed

text \<open>Cells of corresponding rows before and after a step, related column by column.\<close>

lemma map_column_cells:
  "list_all2 (\<lambda>r r'. \<forall>c. cell (columns df) r' c
                 = (if c = col then map_option f (cell (columns df) r c) else cell (columns df) r c))
     (rows df) (rows (map_column col f df))"
  unfolding rows_map_column list_all2_map2
  by (rule list_all2_refl) (simp add: cell_set_cell_value)


lemma list_all2_in_set2:
  "list_all2 P xs ys \<Longrightarrow> y \<in> set ys \<Longrightarrow> \<exists>x \<in> set xs. P x y"
  by (induction rule: list_all2_induct) auto

lemma list_all2_compose:
  "list_all2 P xs ys \<Longrightarrow> list_all2 Q ys zs \<Longrightarrow> (\<And>x y z. P x y \<Longrightarrow> Q y z \<Longrightarrow> R x z)
     \<Longrightarrow> list_all2 R xs zs"
  by (rule list_all2_trans [where ?P1.0 = P and ?P2.0 = Q]) auto

subsection \<open>The default fills\<close>

lemma fill_defaults_columns:
  "fill_defaults l df = Inr df' \<Longrightarrow> columns df' = columns df \<and> fst ` set l \<subseteq> set (columns df)"
proof (induction l arbitrary: df)
  case Nil
  then show ?case by simp
next
  case (Cons p l)
  obtain col v where p: "p = (col, v)" by (cases p)
  from Cons.prems p have col: "col \<in> set (columns df)"
    and rest: "fill_defaults l (map_column col (\<lambda>x. if x = NaN then v else x) df) = Inr df'"
    by (auto simp: replace_na_eq split: if_splits)
  from Cons.IH [OF rest] col p show ?case by simp
qed

lemma fill_defaults_frame_ok:
  "fill_defaults l df = Inr df' \<Longrightarrow> frame_ok df \<Longrightarrow> frame_ok df'"
proof (induction l arbitrary: df)
  case Nil
  then show ?case by simp
next
  case (Cons p l)
  obtain col v where p: "p = (col, v)" by (cases p)
  from Cons.prems p have
    rest: "fill_defaults l (map_column col (\<lambda>x. if x = NaN then v else x) df) = Inr df'"
    by (auto simp: replace_na_eq split: if_splits)
  from Cons.IH [OF rest] Cons.prems(2) show ?case by (simp add: frame_ok_map_column)
qed

lemma fill_defaults_other_cells:
  "fill_defaults l df = Inr df' \<Longrightarrow>
     list_all2 (\<lambda>r r'. \<forall>c. c \<notin> fst ` set l \<longrightarrow> cell (columns df) r' c = cell (columns df) r c)
       (rows df) (rows df')"
proof (induction l arbitrary: df)
  case Nil
  then show ?case by (simp add: list_all2_same)
next
  case (Cons p l)
  obtain col v where p: "p = (col, v)" by (cases p)
  let ?df1 = "map_column col (\<lambda>x. if x = NaN then v else x) df"
  from Cons.prems p have rest: "fill_defaults l ?df1 = Inr df'"
    by (auto simp: replace_na_eq split: if_splits)
  have step: "list_all2 (\<lambda>r r'. \<forall>c. cell (columns df) r' c
                 = (if c = col then map_option (\<lambda>x. if x = NaN then v else x) (cell (columns df) r c)
                    else cell (columns df) r c))
     (rows df) (rows ?df1)"
    by (rule map_column_cells)
  from Cons.IH [OF rest] have tail:
    "list_all2 (\<lambda>r r'. \<forall>c. c \<notin> fst ` set l \<longrightarrow> cell (columns df) r' c = cell (columns df) r c)
       (rows ?df1) (rows df')"
    by simp
  show ?case
    by (rule list_all2_compose [OF step tail]) (simp add: p)
qed

lemma fill_defaults_keeps_filled:
  "fill_defaults l df = Inr df' \<Longrightarrow> \<forall>(c, v) \<in> set l. v \<noteq> NaN \<Longrightarrow>
     \<forall>r \<in> set (rows df). cell (columns df) r c \<noteq> Some NaN \<Longrightarrow>
     \<forall>r' \<in> set (rows df'). cell (columns df) r' c \<noteq> Some NaN"
proof (induction l arbitrary: df)
  case Nil
  then show ?case by simp
next
  case (Cons p l)
  obtain col v where p: "p = (col, v)" by (cases p)
  let ?df1 = "map_column col (\<lambda>x. if x = NaN then v else x) df"
  from Cons.prems p have rest: "fill_defaults l ?df1 = Inr df'" and v: "v \<noteq> NaN"
    by (auto simp: replace_na_eq split: if_splits)
  have "\<forall>r \<in> set (rows ?df1). cell (columns ?df1) r c \<noteq> Some NaN"
    using Cons.prems(3) v by (auto simp: rows_map_column cell_set_cell_value)
  with Cons.IH [OF rest] Cons.prems(2) show ?case by simp
qed

lemma fill_defaults_filled:
  "fill_defaults l df = Inr df' \<Longrightarrow> \<forall>(c, v) \<in> set l. v \<noteq> NaN \<Longrightarrow> c \<in> fst ` set l \<Longrightarrow>
     r' \<in> set (rows df') \<Longrightarrow> cell (columns df) r' c \<noteq> Some NaN"
proof (induction l arbitrary: df)
  case Nil
  then show ?case by simp
next
  case (Cons p l)
  obtain col v where p: "p = (col, v)" by (cases p)
  let ?df1 = "map_column col (\<lambda>x. if x = NaN then v else x) df"
  from Cons.prems p have rest: "fill_defaults l ?df1 = Inr df'" and v: "v \<noteq> NaN"
    and vs: "\<forall>(c, v) \<in> set l. v \<noteq> NaN"
    by (auto simp: replace_na_eq split: if_splits)
  show ?case
  proof (cases "c = col")
    case True
    have "\<forall>r \<in> set (rows ?df1). cell (columns ?df1) r col \<noteq> Some NaN"
      using v by (auto simp: rows_map_column cell_set_cell_value cell_value_def)
    from fill_defaults_keeps_filled [OF rest vs this] Cons.prems(4) True show ?thesis by simp
  next
    case False
    with Cons.prems(3) p have "c \<in> fst ` set l" by auto
    from Cons.IH [OF rest vs this Cons.prems(4)] show ?thesis by simp
  qed
qed

lemma fill_defaults_fixed:
  "frame_ok df \<Longrightarrow> fst ` set l \<subseteq> set (columns df) \<Longrightarrow>
     \<forall>c \<in> fst ` set l. \<forall>r \<in> set (rows df). cell (columns df) r c \<noteq> Some NaN \<Longrightarrow>
     fill_defaults l df = Inr df"
proof (induction l)
  case Nil
  show ?case by simp
next
  case (Cons p l)
  obtain col v where p: "p = (col, v)" by (cases p)
  have "map_column col (\<lambda>x. if x = NaN then v else x) df = df"
  proof (rule map_column_fixed [OF Cons.prems(1)])
    fix r assume r: "r \<in> set (rows df)"
    with Cons.prems(1) have len: "length r = length (columns df)"
      by (simp add: frame_ok_def list_all_iff)
    from Cons.prems(2) p have "col \<in> set (columns df)" by simp
    from cell_Some_if_ok [OF this len] obtain x where x: "cell (columns df) r col = Some x" ..
    with Cons.prems(3) p r have "x \<noteq> NaN" by force
    with x show "(if cell_value (columns df) r col = NaN then v else cell_value (columns df) r col)
                   = cell_value (columns df) r col"
      by (simp add: cell_value_def)
  qed
  with Cons p show ?case by (simp add: replace_na_eq)
qed

subsection \<open>The recoding\<close>

lemma replace_columns [simp]: "columns (replace t df) = columns df"
proof (induction t arbitrary: df)
  case Nil
  show ?case by simp
next
  case (Cons p t)
  obtain col m where p: "p = (col, m)" by (cases p)
  show ?case unfolding p replace_Cons_eq by (simp add: Cons.IH)
qed

lemma replace_frame_ok: "frame_ok df \<Longrightarrow> frame_ok (replace t df)"
proof (induction t arbitrary: df)
  case Nil
  then show ?case by simp
next
  case (Cons p t)
  obtain col m where p: "p = (col, m)" by (cases p)
  show ?case unfolding p replace_Cons_eq
    by (rule Cons.IH) (simp add: Cons.prems frame_ok_map_column)
qed

lemma replace_cells:
  "distinct (map fst t) \<Longrightarrow>
     list_all2 (\<lambda>r r'. \<forall>c. cell (columns df) r' c
                  = map_option (\<lambda>v. case map_of t c of None \<Rightarrow> v | Some m \<Rightarrow> replace_value m v)
                      (cell (columns df) r c))
       (rows df) (rows (replace t df))"
proof (induction t arbitrary: df)
  case Nil
  show ?case by (simp add: list_all2_same option.map_ident)
next
  case (Cons p t)
  obtain col m where p: "p = (col, m)" by (cases p)
  let ?df1 = "if col \<in> set (columns df) then map_column col (replace_value m) df else df"
  from Cons.prems p have d: "distinct (map fst t)" and fresh: "map_of t col = None"
    by (auto simp: map_of_eq_None_iff)
  have step: "list_all2 (\<lambda>r r'. \<forall>c. cell (columns df) r' c
                 = (if c = col then map_option (replace_value m) (cell (columns df) r c)
                    else cell (columns df) r c))
     (rows df) (rows ?df1)"
  proof (cases "col \<in> set (columns df)")
    case True
    then show ?thesis using map_column_cells [of df col "replace_value m"] by simp
  next
    case False
    then show ?thesis by (simp add: list_all2_same cell_None_if_absent)
  qed
  have cols: "columns ?df1 = columns df" by simp
  from Cons.IH [OF d, of ?df1] have tail:
    "list_all2 (\<lambda>r r'. \<forall>c. cell (columns df) r' c
                  = map_option (\<lambda>v. case map_of t c of None \<Rightarrow> v | Some m \<Rightarrow> replace_value m v)
                      (cell (columns df) r c))
       (rows ?df1) (rows (replace t ?df1))"
    unfolding cols .
  have "list_all2 (\<lambda>r r'. \<forall>c. cell (columns df) r' c
                  = map_option (\<lambda>v. case map_of ((col, m) # t) c of None \<Rightarrow> v
                                      | Some m \<Rightarrow> replace_value m v)
                      (cell (columns df) r c))
       (rows df) (rows (replace t ?df1))"
    by (rule list_all2_compose [OF step tail]) (auto simp: fresh option.map_comp option.map_ident)
  then show ?case unfolding p replace_Cons_eq .
qed

lemma replace_fixed:
  "frame_ok df \<Longrightarrow>
     \<forall>(col, m) \<in> set t. \<forall>r \<in> set (rows df).
        replace_value m (cell_value (columns df) r col) = cell_value (columns df) r col \<Longrightarrow>
     replace t df = df"
proof (induction t)
  case Nil
  show ?case by simp
next
  case (Cons p t)
  obtain col m where p: "p = (col, m)" by (cases p)
  have "map_column col (replace_value m) df = df"
    by (rule map_column_fixed [OF Cons.prems(1)]) (use Cons.prems(2) p in auto)
  moreover have "replace t df = df"
    using Cons by simp
  ultimately show ?case unfolding p replace_Cons_eq by simp
qed


subsection \<open>Facts about the two tables\<close>

lemma default_values_not_missing: "\<forall>(c, v) \<in> set default_values. v \<noteq> NaN"
  by (simp add: default_values_def)

lemma filtered_columns_not_defaulted:
  "''Neighborhood'' \<notin> fst ` set default_values" "''GrLivArea'' \<notin> fst ` set default_values"
  by (simp_all add: default_values_def)

lemma filtered_columns_not_recoded:
  "map_of recoding ''Neighborhood'' = None" "map_of recoding ''GrLivArea'' = None"
  by (simp_all add: recoding_def)

lemma recoding_distinct: "distinct (map fst recoding)"
  by (simp add: recoding_def)

lemma recoding_targets:
  "list_all (\<lambda>(c, m). map_of m NaN = None \<and> list_all (\<lambda>(k, w). w \<noteq> NaN \<and> map_of m w = None) m) recoding"
  by (simp add: recoding_def)


lemma replace_value_idem:
  assumes "list_all (\<lambda>(k, w). w \<noteq> NaN \<and> map_of m w = None) m"
  shows "replace_value m (replace_value m v) = replace_value m v"
proof (cases "map_of m v")
  case None
  then show ?thesis by (simp add: replace_value_def)
next
  case (Some w)
  then have "(v, w) \<in> set m" by (rule map_of_SomeD)
  with assms have "map_of m w = None" by (auto simp: list_all_iff)
  with Some show ?thesis by (simp add: replace_value_def)
qed

lemma replace_value_not_missing:
  assumes "list_all (\<lambda>(k, w). w \<noteq> NaN \<and> map_of m w = None) m" and "v \<noteq> NaN"
  shows "replace_value m v \<noteq> NaN"
proof (cases "map_of m v")
  case None
  with assms(2) show ?thesis by (simp add: replace_value_def)
next
  case (Some w)
  then have "(v, w) \<in> set m" by (rule map_of_SomeD)
  with assms(1) have "w \<noteq> NaN" by (auto simp: list_all_iff)
  with Some show ?thesis by (simp add: replace_value_def)
qed

lemma recoding_entry:
  assumes "map_of recoding c = Some m"
  shows "map_of m NaN = None" and "list_all (\<lambda>(k, w). w \<noteq> NaN \<and> map_of m w = None) m"
proof -
  from assms have "(c, m) \<in> set recoding" by (rule map_of_SomeD)
  with recoding_targets show "map_of m NaN = None"
    and "list_all (\<lambda>(k, w). w \<noteq> NaN \<and> map_of m w = None) m"
    by (auto simp: list_all_iff)
qed

lemma recoded_not_missing:
  assumes "v \<noteq> NaN"
  shows "(case map_of recoding c of None \<Rightarrow> v | Some m \<Rightarrow> replace_value m v) \<noteq> NaN"
proof (cases "map_of recoding c")
  case None
  with assms show ?thesis by simp
next
  case (Some m)
  from recoding_entry(2) [OF Some] assms have "replace_value m v \<noteq> NaN"
    by (rule replace_value_not_missing)
  with Some show ?thesis by simp
qed

subsection \<open>Dropping columns and filtering rows\<close>

lemma length_filter_zip:
  "length r = length cs \<Longrightarrow> length (filter (\<lambda>(c, v). P c) (zip cs r)) = length (filter P cs)"
  by (induction r cs rule: list_induct2) auto

lemma drop_columns_Inr:
  assumes "drop_columns labels df = Inr df1"
  shows "columns df1 = filter (\<lambda>c. c \<notin> set labels) (columns df)"
    and "frame_ok df \<Longrightarrow> frame_ok df1"
proof -
  from assms have df1: "df1 = \<lparr>columns = filter (\<lambda>c. c \<notin> set labels) (columns df),
               rows = map (\<lambda>r. map snd (filter (\<lambda>(c, v). c \<notin> set labels) (zip (columns df) r)))
                        (rows df)\<rparr>"
    by (auto simp: drop_columns_def split: list.splits)
  then show "columns df1 = filter (\<lambda>c. c \<notin> set labels) (columns df)" by simp
  show "frame_ok df1" if "frame_ok df"
    using that unfolding df1 frame_ok_def by (auto simp: list_all_iff length_filter_zip)
qed

lemma drop_columns_missing:
  "l \<in> set labels \<Longrightarrow> l \<notin> set (columns df) \<Longrightarrow> \<exists>k. drop_columns labels df = Inl (KeyError k)"
  by (auto simp: drop_columns_def filter_empty_conv split: list.splits)

lemma loc_rows_isin:
  "loc_rows (invert (isin (map g (rows df)) vs)) df = df\<lparr>rows := filter (\<lambda>r. g r \<notin> set vs) (rows df)\<rparr>"
proof -
  have "invert (isin (map g (rows df)) vs) = map (\<lambda>r. g r \<notin> set vs) (rows df)"
    by (simp add: invert_def isin_def)
  then show ?thesis by (simp add: loc_rows_def filter_by_mask)
qed

lemma lt_scalar_Inr:
  assumes "lt_scalar (map g (rows df)) b = Inr below"
  shows "loc_rows below df = df\<lparr>rows := filter (\<lambda>r. \<exists>x. g r = Num x \<and> x < b) (rows df)\<rparr>"
proof -
  have eq: "(case v of Num x \<Rightarrow> x < b | _ \<Rightarrow> False) = (\<exists>x. v = Num x \<and> x < b)" for v
    by (cases v) auto
  from assms have "below = map (\<lambda>r. \<exists>x. g r = Num x \<and> x < b) (rows df)"
    by (auto simp: lt_scalar_def eq split: if_splits)
  then show ?thesis by (simp add: loc_rows_def filter_by_mask)
qed

lemma lt_scalar_numbers:
  "\<forall>v \<in> set series. \<exists>x. v = Num x \<and> x < b \<Longrightarrow> lt_scalar series b = Inr (map (\<lambda>v. True) series)"
  by (auto simp: lt_scalar_def list_ex_iff)

text \<open>What a successful run of the steps after the column drop has computed.\<close>

lemma filter_fill_recode_Inr:
  assumes "filter_fill_recode df1 = Inr df'"
  obtains df4 where
    "''Neighborhood'' \<in> set (columns df1)" and "''GrLivArea'' \<in> set (columns df1)"
    and "fill_defaults default_values
           (df1\<lparr>rows := filter (\<lambda>r. \<exists>x. cell_value (columns df1) r ''GrLivArea'' = Num x \<and> x < 4000)
                          (filter (\<lambda>r. cell_value (columns df1) r ''Neighborhood''
                                          \<notin> set [Str ''GrnHill'', Str ''Landmrk''])
                             (rows df1))\<rparr>) = Inr df4"
    and "df' = replace recoding df4"
proof -
  let ?df2 = "df1\<lparr>rows := filter (\<lambda>r. cell_value (columns df1) r ''Neighborhood''
                                          \<notin> set [Str ''GrnHill'', Str ''Landmrk'']) (rows df1)\<rparr>"
  from assms have n: "''Neighborhood'' \<in> set (columns df1)"
    by (auto simp: filter_fill_recode_def getitem_def split: if_splits)
  then have g1: "getitem df1 ''Neighborhood''
                   = Inr (map (\<lambda>r. cell_value (columns df1) r ''Neighborhood'') (rows df1))"
    by (simp add: getitem_def)
  have df2: "loc_rows (invert (isin (map (\<lambda>r. cell_value (columns df1) r ''Neighborhood'') (rows df1))
                          [Str ''GrnHill'', Str ''Landmrk''])) df1 = ?df2"
    by (rule loc_rows_isin)
  from assms have rest: "(case getitem ?df2 ''GrLivArea'' of
                Inl e \<Rightarrow> Inl e
              | Inr area \<Rightarrow>
                  (case lt_scalar area 4000 of
                     Inl e \<Rightarrow> Inl e
                   | Inr below \<Rightarrow>
                       (case fill_defaults default_values (loc_rows below ?df2) of
                          Inl e \<Rightarrow> Inl e
                        | Inr df4 \<Rightarrow> Inr (replace recoding df4)))) = Inr df'"
    unfolding filter_fill_recode_def g1 sum.case Let_def df2 .
  then have a: "''GrLivArea'' \<in> set (columns df1)"
    by (auto simp: getitem_def split: if_splits)
  then have g2: "getitem ?df2 ''GrLivArea''
                   = Inr (map (\<lambda>r. cell_value (columns df1) r ''GrLivArea'') (rows ?df2))"
    by (simp add: getitem_def)
  from rest obtain below df4 where
    lt: "lt_scalar (map (\<lambda>r. cell_value (columns df1) r ''GrLivArea'') (rows ?df2)) 4000 = Inr below"
    and fill: "fill_defaults default_values (loc_rows below ?df2) = Inr df4"
    and df': "df' = replace recoding df4"
    unfolding g2 sum.case by (auto split: sum.splits)
  from lt_scalar_Inr [OF lt] fill have
    "fill_defaults default_values
           (df1\<lparr>rows := filter (\<lambda>r. \<exists>x. cell_value (columns df1) r ''GrLivArea'' = Num x \<and> x < 4000)
                          (filter (\<lambda>r. cell_value (columns df1) r ''Neighborhood''
                                          \<notin> set [Str ''GrnHill'', Str ''Landmrk''])
                             (rows df1))\<rparr>) = Inr df4"
    by simp
  from that [OF n a this df'] show thesis .
qed


subsection \<open>The cleaned table\<close>

lemma cell_value_cases:
  "cell cs r c = Some (cell_value cs r c) \<or> (cell cs r c = None \<and> cell_value cs r c = NaN)"
  by (cases "cell cs r c") (simp_all add: cell_value_def)

lemma filter_fill_recode_rows:
  assumes "filter_fill_recode df1 = Inr df'" and "r' \<in> set (rows df')"
  shows "cell (columns df1) r' ''Neighborhood'' \<notin> {Some (Str ''GrnHill''), Some (Str ''Landmrk'')}"
    and "\<exists>x. cell (columns df1) r' ''GrLivArea'' = Some (Num x) \<and> x < 4000"
proof -
  from assms(1) obtain df4 where
    fill: "fill_defaults default_values
           (df1\<lparr>rows := filter (\<lambda>r. \<exists>x. cell_value (columns df1) r ''GrLivArea'' = Num x \<and> x < 4000)
                          (filter (\<lambda>r. cell_value (columns df1) r ''Neighborhood''
                                          \<notin> set [Str ''GrnHill'', Str ''Landmrk''])
                             (rows df1))\<rparr>) = Inr df4"
    and df': "df' = replace recoding df4"
    by (rule filter_fill_recode_Inr)
  let ?df3 = "df1\<lparr>rows := filter (\<lambda>r. \<exists>x. cell_value (columns df1) r ''GrLivArea'' = Num x \<and> x < 4000)
                          (filter (\<lambda>r. cell_value (columns df1) r ''Neighborhood''
                                          \<notin> set [Str ''GrnHill'', Str ''Landmrk''])
                             (rows df1))\<rparr>"
  from fill_defaults_columns [OF fill] have cols4: "columns df4 = columns df1" by simp
  from replace_cells [OF recoding_distinct, of df4] assms(2) df' cols4
  obtain r4 where r4: "r4 \<in> set (rows df4)"
    and c4: "\<And>c. cell (columns df1) r' c
              = map_option (\<lambda>v. case map_of recoding c of None \<Rightarrow> v | Some m \<Rightarrow> replace_value m v)
                  (cell (columns df1) r4 c)"
    by (auto dest!: list_all2_in_set2)
  from fill_defaults_other_cells [OF fill] r4
  obtain r3 where r3: "r3 \<in> set (rows ?df3)"
    and c3: "\<And>c. c \<notin> fst ` set default_values \<Longrightarrow> cell (columns df1) r4 c = cell (columns df1) r3 c"
    by (auto dest!: list_all2_in_set2)
  have n: "cell (columns df1) r' ''Neighborhood'' = cell (columns df1) r3 ''Neighborhood''"
    using c4 [of "''Neighborhood''"] c3 [OF filtered_columns_not_defaulted(1)]
    by (simp add: filtered_columns_not_recoded option.map_ident)
  have a: "cell (columns df1) r' ''GrLivArea'' = cell (columns df1) r3 ''GrLivArea''"
    using c4 [of "''GrLivArea''"] c3 [OF filtered_columns_not_defaulted(2)]
    by (simp add: filtered_columns_not_recoded option.map_ident)
  from r3 have k1: "cell_value (columns df1) r3 ''Neighborhood'' \<notin> set [Str ''GrnHill'', Str ''Landmrk'']"
    and k2: "\<exists>x. cell_value (columns df1) r3 ''GrLivArea'' = Num x \<and> x < 4000"
    by auto
  from k1 cell_value_cases [of "columns df1" r3 "''Neighborhood''"]
  show "cell (columns df1) r' ''Neighborhood'' \<notin> {Some (Str ''GrnHill''), Some (Str ''Landmrk'')}"
    unfolding n by auto
  from k2 cell_value_cases [of "columns df1" r3 "''GrLivArea''"]
  show "\<exists>x. cell (columns df1) r' ''GrLivArea'' = Some (Num x) \<and> x < 4000"
    unfolding a by auto
qed

lemma filter_fill_recode_filled:
  assumes "filter_fill_recode df1 = Inr df'" and "r' \<in> set (rows df')"
    and "c \<in> fst ` set default_values"
  shows "cell (columns df1) r' c \<noteq> Some NaN"
proof -
  from assms(1) obtain df4 df3 where
    fill: "fill_defaults default_values df3 = Inr df4"
    and df3: "columns df3 = columns df1"
    and df': "df' = replace recoding df4"
    by (rule filter_fill_recode_Inr) simp
  from fill_defaults_columns [OF fill] df3 have cols4: "columns df4 = columns df1" by simp
  from replace_cells [OF recoding_distinct, of df4] assms(2) df' cols4
  obtain r4 where r4: "r4 \<in> set (rows df4)"
    and c4: "\<And>c. cell (columns df1) r' c
              = map_option (\<lambda>v. case map_of recoding c of None \<Rightarrow> v | Some m \<Rightarrow> replace_value m v)
                  (cell (columns df1) r4 c)"
    by (auto dest!: list_all2_in_set2)
  from fill_defaults_filled [OF fill default_values_not_missing assms(3) r4] df3
  have "cell (columns df1) r4 c \<noteq> Some NaN" by simp
  then show ?thesis
    unfolding c4 [of c] by (cases "cell (columns df1) r4 c") (auto dest: recoded_not_missing)
qed

lemma filter_fill_recode_columns:
  assumes "filter_fill_recode df1 = Inr df'"
  shows "columns df' = columns df1" and "fst ` set default_values \<subseteq> set (columns df1)"
    and "frame_ok df1 \<Longrightarrow> frame_ok df'"
proof -
  let ?df3 = "df1\<lparr>rows := filter (\<lambda>r. \<exists>x. cell_value (columns df1) r ''GrLivArea'' = Num x \<and> x < 4000)
                          (filter (\<lambda>r. cell_value (columns df1) r ''Neighborhood''
                                          \<notin> set [Str ''GrnHill'', Str ''Landmrk''])
                             (rows df1))\<rparr>"
  from assms(1) obtain df4 where
    fill: "fill_defaults default_values ?df3 = Inr df4"
    and df': "df' = replace recoding df4"
    by (rule filter_fill_recode_Inr)
  from fill_defaults_columns [OF fill] df'
  show "columns df' = columns df1" and "fst ` set default_values \<subseteq> set (columns df1)"
    by simp_all
  show "frame_ok df'" if "frame_ok df1"
  proof -
    from that have "frame_ok ?df3"
      by (auto simp: frame_ok_def list_all_iff)
    from fill_defaults_frame_ok [OF fill this] df' show ?thesis
      by (simp add: replace_frame_ok)
  qed
qed

lemma filter_fill_recode_recoded:
  assumes "filter_fill_recode df1 = Inr df'" and "r' \<in> set (rows df')"
    and "(col, m) \<in> set recoding"
  shows "replace_value m (cell_value (columns df1) r' col) = cell_value (columns df1) r' col"
proof -
  from assms(1) obtain df4 df3 where
    fill: "fill_defaults default_values df3 = Inr df4"
    and df3: "columns df3 = columns df1"
    and df': "df' = replace recoding df4"
    by (rule filter_fill_recode_Inr) simp
  from fill_defaults_columns [OF fill] df3 have cols4: "columns df4 = columns df1" by simp
  from replace_cells [OF recoding_distinct, of df4] assms(2) df' cols4
  obtain r4 where r4: "r4 \<in> set (rows df4)"
    and c4: "\<And>c. cell (columns df1) r' c
              = map_option (\<lambda>v. case map_of recoding c of None \<Rightarrow> v | Some m \<Rightarrow> replace_value m v)
                  (cell (columns df1) r4 c)"
    by (auto dest!: list_all2_in_set2)
  from assms(3) recoding_distinct have m: "map_of recoding col = Some m"
    by (simp add: map_of_eq_Some_iff)
  show ?thesis
  proof (cases "cell (columns df1) r4 col")
    case None
    with c4 [of col] have "cell_value (columns df1) r' col = NaN" by (simp add: cell_value_def)
    with recoding_entry(1) [OF m] show ?thesis by (simp add: replace_value_def)
  next
    case (Some u)
    with c4 [of col] m have "cell_value (columns df1) r' col = replace_value m u"
      by (simp add: cell_value_def)
    with recoding_entry(2) [OF m] show ?thesis by (simp add: replace_value_idem)
  qed
qed

subsection \<open>The cleaner as a whole\<close>

lemma loc_rows_all: "loc_rows (map (\<lambda>v. True) (map g (rows df))) df = df"
  using filter_by_mask [of "\<lambda>r. True" "rows df"] by (simp add: loc_rows_def comp_def)

lemma filter_fill_recode_fixed:
  assumes "''Neighborhood'' \<in> set (columns d)" and "''GrLivArea'' \<in> set (columns d)"
    and keep1: "\<forall>r \<in> set (rows d). cell_value (columns d) r ''Neighborhood''
                   \<notin> set [Str ''GrnHill'', Str ''Landmrk'']"
    and keep2: "\<forall>r \<in> set (rows d). \<exists>x. cell_value (columns d) r ''GrLivArea'' = Num x \<and> x < 4000"
    and fill: "fill_defaults default_values d = Inr d"
    and recode: "replace recoding d = d"
  shows "filter_fill_recode d = Inr d"
proof -
  from assms(1) have g1: "getitem d ''Neighborhood''
                   = Inr (map (\<lambda>r. cell_value (columns d) r ''Neighborhood'') (rows d))"
    by (simp add: getitem_def)
  from keep1 have "filter (\<lambda>r. cell_value (columns d) r ''Neighborhood''
                      \<notin> set [Str ''GrnHill'', Str ''Landmrk'']) (rows d) = rows d"
    by (simp only: filter_True)
  then have d2: "loc_rows (invert (isin (map (\<lambda>r. cell_value (columns d) r ''Neighborhood'') (rows d))
                          [Str ''GrnHill'', Str ''Landmrk''])) d = d"
    unfolding loc_rows_isin by simp
  from assms(2) have g2: "getitem d ''GrLivArea''
                   = Inr (map (\<lambda>r. cell_value (columns d) r ''GrLivArea'') (rows d))"
    by (simp add: getitem_def)
  from keep2 have lt: "lt_scalar (map (\<lambda>r. cell_value (columns d) r ''GrLivArea'') (rows d)) 4000
          = Inr (map (\<lambda>v. True) (map (\<lambda>r. cell_value (columns d) r ''GrLivArea'') (rows d)))"
    by (intro lt_scalar_numbers) auto
  show ?thesis
    unfolding filter_fill_recode_def g1 sum.case Let_def d2 g2 lt loc_rows_all fill recode ..
qed

lemma clean_Inr:
  assumes "clean df = Inr df'"
  obtains df1 where "drop_columns [''Order'', ''PID''] df = Inr df1"
    and "filter_fill_recode df1 = Inr df'"
  using assms by (auto simp: clean_def split: sum.splits)

lemma clean_columns:
  assumes "clean df = Inr df'"
  shows "columns df' = filter (\<lambda>c. c \<notin> set [''Order'', ''PID'']) (columns df)"
proof -
  from assms obtain df1 where drop: "drop_columns [''Order'', ''PID''] df = Inr df1"
    and rest: "filter_fill_recode df1 = Inr df'"
    by (rule clean_Inr)
  from filter_fill_recode_columns(1) [OF rest] drop_columns_Inr(1) [OF drop] show ?thesis by simp
qed

lemma reclean_raises:
  assumes "clean df = Inr df'"
  shows "\<exists>k. clean df' = Inl (KeyError k)"
proof -
  from clean_columns [OF assms] have "''Order'' \<notin> set (columns df')" by simp
  with drop_columns_missing [of "''Order''" "[''Order'', ''PID'']" df']
  obtain k where "drop_columns [''Order'', ''PID''] df' = Inl (KeyError k)" by auto
  then show ?thesis by (auto simp: clean_def)
qed

lemma clean_raw_example: "clean raw_example = Inr cleaned_example"
  by code_simp

lemma frame_ok_raw_example: "frame_ok raw_example"
  by code_simp

lemma fill_raw_example: "fill_defaults default_values raw_example = Inr filled_example"
  by code_simp

text \<open>
  C5.  In every row of the table the cleaner returns, the \<open>Neighborhood\<close> cell is neither
  \<open>GrnHill\<close> nor \<open>Landmrk\<close>, and the \<open>GrLivArea\<close> cell is a number that does not exceed
  4000 (the filter keeps a row only when the value is below 4000, see \<open>clean_area_below\<close>).
\<close>

theorem clean_row_filters:
  assumes "clean df = Inr df'" and "r \<in> set (rows df')"
  shows "cell (columns df') r ''Neighborhood'' \<notin> {Some (Str ''GrnHill''), Some (Str ''Landmrk'')}
       \<and> (\<exists>x. cell (columns df') r ''GrLivArea'' = Some (Num x) \<and> x \<le> 4000)"
proof -
  from assms(1) obtain df1 where rest: "filter_fill_recode df1 = Inr df'"
    by (rule clean_Inr)
  from filter_fill_recode_columns(1) [OF rest] filter_fill_recode_rows [OF rest assms(2)]
  show ?thesis by auto
qed

theorem clean_row_filters_witness:
  "clean raw_example = Inr cleaned_example
   \<and> rows cleaned_example ! 0 \<in> set (rows cleaned_example)
   \<and> cell (columns cleaned_example) (rows cleaned_example ! 0) ''Neighborhood''
        \<notin> {Some (Str ''GrnHill''), Some (Str ''Landmrk'')}
   \<and> (\<exists>x. cell (columns cleaned_example) (rows cleaned_example ! 0) ''GrLivArea'' = Some (Num x)
           \<and> x \<le> 4000)"
proof -
  have r: "rows cleaned_example ! 0 \<in> set (rows cleaned_example)"
    by (simp add: cleaned_example_def)
  from clean_row_filters [OF clean_raw_example r] clean_raw_example r show ?thesis by simp
qed

lemma clean_area_below:
  assumes "clean df = Inr df'" and "r \<in> set (rows df')"
  shows "\<exists>x. cell (columns df') r ''GrLivArea'' = Some (Num x) \<and> x < 4000"
proof -
  from assms(1) obtain df1 where rest: "filter_fill_recode df1 = Inr df'"
    by (rule clean_Inr)
  from filter_fill_recode_columns(1) [OF rest] filter_fill_recode_rows(2) [OF rest assms(2)]
  show ?thesis by simp
qed

text \<open>
  C6.  After the default fills have run on a table, every column named in the default-value
  table is a column of the result and holds no missing value in any row.
\<close>

theorem fill_defaults_no_missing:
  assumes "frame_ok df" and "fill_defaults default_values df = Inr df'"
    and "c \<in> fst ` set default_values" and "r \<in> set (rows df')"
  shows "c \<in> set (columns df') \<and> (\<exists>v. cell (columns df') r c = Some v \<and> v \<noteq> NaN)"
proof -
  from fill_defaults_columns [OF assms(2)] assms(3)
  have cols: "columns df' = columns df" and c: "c \<in> set (columns df')" by auto
  from fill_defaults_frame_ok [OF assms(2) assms(1)] assms(4)
  have "length r = length (columns df')" by (simp add: frame_ok_def list_all_iff)
  from cell_Some_if_ok [OF c this] obtain v where v: "cell (columns df') r c = Some v" ..
  from fill_defaults_filled [OF assms(2) default_values_not_missing assms(3) assms(4)] v cols
  have "v \<noteq> NaN" by auto
  with c v show ?thesis by simp
qed

theorem fill_defaults_no_missing_witness:
  "frame_ok raw_example \<and> fill_defaults default_values raw_example = Inr filled_example
   \<and> ''Alley'' \<in> fst ` set default_values \<and> rows filled_example ! 0 \<in> set (rows filled_example)
   \<and> cell (columns raw_example) (rows raw_example ! 0) ''Alley'' = Some NaN
   \<and> ''Alley'' \<in> set (columns filled_example)
   \<and> (\<exists>v. cell (columns filled_example) (rows filled_example ! 0) ''Alley'' = Some v \<and> v \<noteq> NaN)"
proof -
  have c: "''Alley'' \<in> fst ` set default_values" by (simp add: default_values_def)
  have r: "rows filled_example ! 0 \<in> set (rows filled_example)" by (simp add: filled_example_def)
  have before: "cell (columns raw_example) (rows raw_example ! 0) ''Alley'' = Some NaN"
    by code_simp
  from fill_defaults_no_missing [OF frame_ok_raw_example fill_raw_example c r]
    frame_ok_raw_example fill_raw_example c r before
  show ?thesis by simp
qed

lemma clean_no_missing:
  assumes "clean df = Inr df'" and "c \<in> fst ` set default_values" and "r \<in> set (rows df')"
  shows "cell (columns df') r c \<noteq> Some NaN"
proof -
  from assms(1) obtain df1 where rest: "filter_fill_recode df1 = Inr df'"
    by (rule clean_Inr)
  from filter_fill_recode_columns(1) [OF rest] filter_fill_recode_filled [OF rest assms(3) assms(2)]
  show ?thesis by simp
qed

text \<open>
  C7.  The recoding keeps the columns and the number of rows, and rewrites every cell on its
  own: the cell of column \<open>c\<close> becomes the value its content is mapped to by the mapping of
  column \<open>c\<close> when that content is a key there, and stays as it is when the content is no
  key of that mapping or when column \<open>c\<close> has no mapping.
\<close>

theorem replace_recoding_cells:
  "columns (replace recoding df) = columns df
   \<and> length (rows (replace recoding df)) = length (rows df)
   \<and> (\<forall>i < length (rows df). \<forall>c.
         cell (columns df) (rows (replace recoding df) ! i) c
           = map_option (\<lambda>v. case map_of recoding c of
                               None \<Rightarrow> v
                             | Some mapping \<Rightarrow> (case map_of mapping v of Some w \<Rightarrow> w | None \<Rightarrow> v))
               (cell (columns df) (rows df ! i) c))"
  using replace_cells [OF recoding_distinct, of df]
  unfolding replace_value_def by (simp add: list_all2_conv_all_nth)

theorem replace_recoding_cells_witness:
  "cell (columns recode_example) (rows (replace recoding recode_example) ! 0) ''Alley'' = Some (Num 1)
   \<and> cell (columns recode_example) (rows (replace recoding recode_example) ! 1) ''Alley''
         = Some (Str ''Shared'')
   \<and> cell (columns recode_example) (rows (replace recoding recode_example) ! 1) ''LotArea''
         = Some (Str ''Grvl'')"
proof -
  note cells = replace_recoding_cells [of recode_example, THEN conjunct2, THEN conjunct2, rule_format]
  have i0: "0 < length (rows recode_example)" and i1: "1 < length (rows recode_example)"
    by (simp_all add: recode_example_def)
  have "map_option (\<lambda>v. case map_of recoding ''Alley'' of
                               None \<Rightarrow> v
                             | Some mapping \<Rightarrow> (case map_of mapping v of Some w \<Rightarrow> w | None \<Rightarrow> v))
               (cell (columns recode_example) (rows recode_example ! 0) ''Alley'') = Some (Num 1)"
    by code_simp
  moreover have "map_option (\<lambda>v. case map_of recoding ''Alley'' of
                               None \<Rightarrow> v
                             | Some mapping \<Rightarrow> (case map_of mapping v of Some w \<Rightarrow> w | None \<Rightarrow> v))
               (cell (columns recode_example) (rows recode_example ! 1) ''Alley'') = Some (Str ''Shared'')"
    by code_simp
  moreover have "map_option (\<lambda>v. case map_of recoding ''LotArea'' of
                               None \<Rightarrow> v
                             | Some mapping \<Rightarrow> (case map_of mapping v of Some w \<Rightarrow> w | None \<Rightarrow> v))
               (cell (columns recode_example) (rows recode_example ! 1) ''LotArea'') = Some (Str ''Grvl'')"
    by code_simp
  ultimately show ?thesis
    using cells [OF i0, of "''Alley''"] cells [OF i1, of "''Alley''"] cells [OF i1, of "''LotArea''"]
    by (simp only:)
qed

text \<open>
  C8.  Running the whole cleaner on a table it has cleaned does not give the table back:
  the identifier columns are gone, and dropping them again raises KeyError.
\<close>

theorem recleaning_raises_counterexample:
  "clean raw_example = Inr cleaned_example \<and> clean cleaned_example = Inl (KeyError ''Order'')"
proof -
  have "clean cleaned_example = Inl (KeyError ''Order'')" by code_simp
  with clean_raw_example show ?thesis by simp
qed

text \<open>
  C8, amended.  Running the steps after the column drop again (the two row filters, the
  default fills and the recoding) on a table the cleaner has returned gives that same table.
\<close>

theorem recleaning_steps_fixed:
  assumes "frame_ok df" and "clean df = Inr df'"
  shows "filter_fill_recode df' = Inr df'"
proof -
  from assms(2) obtain df1 where drop: "drop_columns [''Order'', ''PID''] df = Inr df1"
    and rest: "filter_fill_recode df1 = Inr df'"
    by (rule clean_Inr)
  note cols = filter_fill_recode_columns(1) [OF rest]
  from drop_columns_Inr(2) [OF drop assms(1)] have ok1: "frame_ok df1" .
  from filter_fill_recode_columns(3) [OF rest ok1] have ok': "frame_ok df'" .
  from rest have n: "''Neighborhood'' \<in> set (columns df')" and a: "''GrLivArea'' \<in> set (columns df')"
    unfolding cols by (auto elim: filter_fill_recode_Inr)
  have keep1: "\<forall>r \<in> set (rows df'). cell_value (columns df') r ''Neighborhood''
                   \<notin> set [Str ''GrnHill'', Str ''Landmrk'']"
  proof
    fix r assume "r \<in> set (rows df')"
    from filter_fill_recode_rows(1) [OF rest this] cell_value_cases [of "columns df'" r "''Neighborhood''"]
    show "cell_value (columns df') r ''Neighborhood'' \<notin> set [Str ''GrnHill'', Str ''Landmrk'']"
      unfolding cols by auto
  qed
  have keep2: "\<forall>r \<in> set (rows df'). \<exists>x. cell_value (columns df') r ''GrLivArea'' = Num x \<and> x < 4000"
  proof
    fix r assume "r \<in> set (rows df')"
    from filter_fill_recode_rows(2) [OF rest this]
    show "\<exists>x. cell_value (columns df') r ''GrLivArea'' = Num x \<and> x < 4000"
      unfolding cols by (auto simp: cell_value_def)
  qed
  have fill: "fill_defaults default_values df' = Inr df'"
  proof (rule fill_defaults_fixed [OF ok'])
    from filter_fill_recode_columns(2) [OF rest]
    show "fst ` set default_values \<subseteq> set (columns df')" unfolding cols .
    show "\<forall>c \<in> fst ` set default_values. \<forall>r \<in> set (rows df'). cell (columns df') r c \<noteq> Some NaN"
      using filter_fill_recode_filled [OF rest] unfolding cols by blast
  qed
  have recode: "replace recoding df' = df'"
  proof (rule replace_fixed [OF ok'])
    show "\<forall>(col, m) \<in> set recoding. \<forall>r \<in> set (rows df').
            replace_value m (cell_value (columns df') r col) = cell_value (columns df') r col"
      using filter_fill_recode_recoded [OF rest] unfolding cols by blast
  qed
  from n a keep1 keep2 fill recode show ?thesis by (rule filter_fill_recode_fixed)
qed

theorem recleaning_steps_fixed_witness:
  "frame_ok raw_example \<and> clean raw_example = Inr cleaned_example
   \<and> filter_fill_recode cleaned_example = Inr cleaned_example"
  using recleaning_steps_fixed [OF frame_ok_raw_example clean_raw_example]
    frame_ok_raw_example clean_raw_example
  by simp

section \<open>Properties of double rounding\<close>

subsection \<open>The exponent\<close>

lemma two_powi_le: "e \<le> e' \<Longrightarrow> (2::real) powi e \<le> 2 powi e'"
  by (rule power_int_increasing) simp_all

lemma two_powi_pos [simp]: "0 < (2::real) powi e"
  by simp

lemma two_powi_Suc: "(2::real) powi (e + 1) = 2 * 2 powi e"
  by (simp add: power_int_add)

lemma two_powi_split: "(2::real) powi e = 2 powi (e - 52) * 2 ^ 52"
  using power_int_add [of "2::real" "e - 52" 52] by simp

lemma exponent_bounds:
  assumes "x \<noteq> 0"
  shows "2 powi exponent x \<le> \<bar>x\<bar>" and "\<bar>x\<bar> < 2 powi (exponent x + 1)"
proof -
  have "2 powi exponent x \<le> \<bar>x\<bar> \<and> \<bar>x\<bar> < 2 powi (exponent x + 1)"
  proof (cases "1 \<le> \<bar>x\<bar>")
    case True
    let ?n = "\<lfloor>\<bar>x\<bar>\<rfloor>"
    from True have n: "0 < ?n" by simp
    from bitlen_bounds [OF n] have lo: "2 ^ nat (bitlen ?n - 1) \<le> ?n"
      and hi: "?n < 2 ^ nat (bitlen ?n)" by simp_all
    from n have b1: "1 \<le> bitlen ?n" by (auto simp: bitlen_alt_def)
    have e: "exponent x = bitlen ?n - 1" using True by (simp add: exponent_def)
    have "(2::real) powi (bitlen ?n - 1) = 2 ^ nat (bitlen ?n - 1)"
      using b1 by (simp add: power_int_nonneg_exp)
    also have "\<dots> = of_int (2 ^ nat (bitlen ?n - 1))" by simp
    also have "\<dots> \<le> of_int ?n" using lo by (simp only: of_int_le_iff)
    also have "\<dots> \<le> \<bar>x\<bar>" by simp
    finally have l: "2 powi exponent x \<le> \<bar>x\<bar>" unfolding e .
    from hi have "?n + 1 \<le> 2 ^ nat (bitlen ?n)" by simp
    then have "(of_int (?n + 1) :: real) \<le> of_int (2 ^ nat (bitlen ?n))"
      by (simp only: of_int_le_iff)
    then have a: "of_int ?n + 1 \<le> (2::real) ^ nat (bitlen ?n)" by simp
    have b: "\<bar>x\<bar> < of_int ?n + 1" by linarith
    from a b have "\<bar>x\<bar> < 2 ^ nat (bitlen ?n)" by linarith
    also have "\<dots> = 2 powi (bitlen ?n)" using b1 by (simp add: power_int_nonneg_exp)
    finally have "\<bar>x\<bar> < 2 powi (exponent x + 1)" unfolding e by simp
    with l show ?thesis by simp
  next
    case False
    let ?y = "1 / \<bar>x\<bar>"
    let ?c = "\<lceil>?y\<rceil>"
    from False assms have x: "0 < \<bar>x\<bar>" "\<bar>x\<bar> < 1" by simp_all
    then have y: "1 < ?y" by simp
    then have c: "0 < ?c - 1" by linarith
    let ?k = "bitlen (?c - 1)"
    from bitlen_bounds [OF c] have lo: "2 ^ nat (?k - 1) \<le> ?c - 1"
      and hi: "?c - 1 < 2 ^ nat ?k" by simp_all
    from c have k1: "1 \<le> ?k" by (auto simp: bitlen_alt_def)
    have e: "exponent x = - ?k" using False by (simp add: exponent_def)
    from hi have "?c \<le> 2 ^ nat ?k" by simp
    then have "(of_int ?c :: real) \<le> of_int (2 ^ nat ?k)" by (simp only: of_int_le_iff)
    then have c1: "of_int ?c \<le> (2::real) ^ nat ?k" by simp
    have c2: "?y \<le> of_int ?c" by simp
    from c1 c2 have yk: "?y \<le> 2 ^ nat ?k" by linarith
    have "(of_int (2 ^ nat (?k - 1)) :: real) \<le> of_int (?c - 1)"
      using lo by (simp only: of_int_le_iff)
    then have c3: "(2::real) ^ nat (?k - 1) \<le> of_int ?c - 1" by simp
    have c4: "of_int ?c - 1 < ?y" by linarith
    from c3 c4 have ky: "2 ^ nat (?k - 1) < ?y" by linarith
    have p: "(2::real) powi (- ?k) = 1 / 2 ^ nat ?k"
      using k1 by (simp add: power_int_minus_divide power_int_nonneg_exp)
    have q: "(2::real) powi (- ?k + 1) = 1 / 2 ^ nat (?k - 1)"
      using k1 power_int_minus_divide [of "2::real" "?k - 1"]
      by (simp add: power_int_nonneg_exp)
    from yk x have "1 / 2 ^ nat ?k \<le> \<bar>x\<bar>"
      by (simp add: field_simps)
    moreover from ky x have "\<bar>x\<bar> < 1 / 2 ^ nat (?k - 1)"
      by (simp add: field_simps)
    ultimately show ?thesis unfolding e p q by simp
  qed
  then show "2 powi exponent x \<le> \<bar>x\<bar>" and "\<bar>x\<bar> < 2 powi (exponent x + 1)" by simp_all
qed

lemma exponent_unique:
  assumes "2 powi e \<le> \<bar>x\<bar>" and "\<bar>x\<bar> < 2 powi (e + 1)"
  shows "exponent x = e"
proof -
  from assms(1) zero_less_power_int [of "2::real" e] have "0 < \<bar>x\<bar>" by linarith
  then have x: "x \<noteq> 0" by simp
  note b = exponent_bounds [OF x]
  have "\<not> exponent x < e"
  proof
    assume "exponent x < e"
    then have "(2::real) powi (exponent x + 1) \<le> 2 powi e" by (intro two_powi_le) simp
    with b(2) assms(1) show False by simp
  qed
  moreover have "\<not> e < exponent x"
  proof
    assume "e < exponent x"
    then have "(2::real) powi (e + 1) \<le> 2 powi exponent x" by (intro two_powi_le) simp
    with b(1) assms(2) show False by simp
  qed
  ultimately show ?thesis by simp
qed

lemma exponent_minus [simp]: "exponent (- x) = exponent x"
  by (simp add: exponent_def)

subsection \<open>Rounding to an integer\<close>

lemma round_half_even_of_int [simp]: "round_half_even (of_int n) = n"
  by (simp add: round_half_even_def)

lemma round_half_even_floor: "\<lfloor>y\<rfloor> \<le> round_half_even y" "round_half_even y \<le> \<lfloor>y\<rfloor> + 1"
  by (simp_all add: round_half_even_def Let_def)

lemma round_half_even_mono:
  assumes "y \<le> z"
  shows "round_half_even y \<le> round_half_even z"
proof (cases "\<lfloor>y\<rfloor> < \<lfloor>z\<rfloor>")
  case True
  with round_half_even_floor(2) [of y] round_half_even_floor(1) [of z] show ?thesis by linarith
next
  case False
  with floor_mono [OF assms] have eq: "\<lfloor>y\<rfloor> = \<lfloor>z\<rfloor>" by simp
  with assms show ?thesis
    by (auto simp: round_half_even_def Let_def)
qed

subsection \<open>Rounding to a double: sign, monotonicity, idempotence\<close>

lemma round_double_0 [simp]: "round_double 0 = 0"
  by (simp add: round_double_def)

lemma round_double_minus: "round_double (- x) = - round_double x"
  by (simp add: round_double_def Let_def sgn_minus)

text \<open>The significand of a non-zero number, scaled to an integer of 53 bits.\<close>

lemma significand_range:
  assumes "x \<noteq> 0"
  shows "2 ^ 52 \<le> \<bar>x\<bar> / 2 powi (exponent x - 52)"
    and "\<bar>x\<bar> / 2 powi (exponent x - 52) < 2 ^ 53"
proof -
  let ?q = "(2::real) powi (exponent x - 52)"
  have q: "0 < ?q" by simp
  have lo: "?q * 2 ^ 52 = 2 powi exponent x" by (rule two_powi_split [symmetric])
  have hi: "?q * 2 ^ 53 = 2 powi (exponent x + 1)"
    using lo by (simp add: two_powi_Suc)
  from exponent_bounds(1) [OF assms] have "?q * 2 ^ 52 \<le> \<bar>x\<bar>" unfolding lo .
  with q show "2 ^ 52 \<le> \<bar>x\<bar> / ?q" by (simp add: field_simps)
  from exponent_bounds(2) [OF assms] have "\<bar>x\<bar> < ?q * 2 ^ 53" unfolding hi .
  with q show "\<bar>x\<bar> / ?q < 2 ^ 53" by (simp add: field_simps)
qed

lemma rounded_significand_range:
  assumes "x \<noteq> 0"
  shows "2 ^ 52 \<le> round_half_even (\<bar>x\<bar> / 2 powi (exponent x - 52))"
    and "round_half_even (\<bar>x\<bar> / 2 powi (exponent x - 52)) \<le> 2 ^ 53"
proof -
  let ?y = "\<bar>x\<bar> / 2 powi (exponent x - 52)"
  have "round_half_even (of_int (2 ^ 52)) \<le> round_half_even ?y"
    using significand_range(1) [OF assms] by (intro round_half_even_mono) simp
  then show "2 ^ 52 \<le> round_half_even ?y" by (simp only: round_half_even_of_int)
  have "round_half_even ?y \<le> round_half_even (of_int (2 ^ 53))"
    using significand_range(2) [OF assms] by (intro round_half_even_mono) simp
  then show "round_half_even ?y \<le> 2 ^ 53" by (simp only: round_half_even_of_int)
qed

lemma round_double_positive:
  assumes "0 < x"
  shows "round_double x = 2 powi (exponent x - 52) * of_int (round_half_even (x / 2 powi (exponent x - 52)))"
  using assms by (simp add: round_double_def Let_def)

lemma round_double_binade:
  assumes "0 < x"
  shows "2 powi exponent x \<le> round_double x" and "round_double x \<le> 2 powi (exponent x + 1)"
proof -
  let ?q = "(2::real) powi (exponent x - 52)"
  let ?n = "round_half_even (x / ?q)"
  from assms have x: "x \<noteq> 0" "\<bar>x\<bar> = x" by simp_all
  have q: "0 < ?q" by simp
  have lo: "?q * 2 ^ 52 = 2 powi exponent x" by (rule two_powi_split [symmetric])
  have hi: "?q * 2 ^ 53 = 2 powi (exponent x + 1)"
    using lo by (simp add: two_powi_Suc)
  from rounded_significand_range [OF x(1)] x(2)
  have n: "(2::real) ^ 52 \<le> of_int ?n" "of_int ?n \<le> (2::real) ^ 53"
    using of_int_le_iff [of "2 ^ 52" ?n, where ?'a = real]
      of_int_le_iff [of ?n "2 ^ 53", where ?'a = real] by simp_all
  from n(1) q have "?q * 2 ^ 52 \<le> ?q * of_int ?n" by (intro mult_left_mono) simp_all
  then show "2 powi exponent x \<le> round_double x"
    unfolding lo round_double_positive [OF assms] .
  from n(2) q have "?q * of_int ?n \<le> ?q * 2 ^ 53" by (intro mult_left_mono) simp_all
  then show "round_double x \<le> 2 powi (exponent x + 1)"
    unfolding hi round_double_positive [OF assms] .
qed

lemma round_double_pos: "0 < x \<Longrightarrow> 0 < round_double x"
  using round_double_binade(1) [of x] zero_less_power_int [of "2::real" "exponent x"]
  by linarith

lemma round_double_nonneg: "0 \<le> x \<Longrightarrow> 0 \<le> round_double x"
  using round_double_pos [of x] by (cases "x = 0") (simp_all add: less_eq_real_def)

lemma round_double_eq_0_iff [simp]: "round_double x = 0 \<longleftrightarrow> x = 0"
proof
  assume r: "round_double x = 0"
  show "x = 0"
  proof (rule ccontr)
    assume "x \<noteq> 0"
    then consider "0 < x" | "0 < - x" by linarith
    then show False
    proof cases
      case 1
      from round_double_pos [OF 1] r show False by simp
    next
      case 2
      from round_double_pos [OF 2] r show False by (simp add: round_double_minus)
    qed
  qed
qed simp



lemma round_double_idem_pos:
  assumes "0 < x"
  shows "round_double (round_double x) = round_double x"
proof -
  let ?e = "exponent x"
  let ?q = "(2::real) powi (?e - 52)"
  let ?n = "round_half_even (x / ?q)"
  from assms have x: "x \<noteq> 0" "\<bar>x\<bar> = x" by simp_all
  have q: "0 < ?q" by simp
  have r: "round_double x = ?q * of_int ?n" by (rule round_double_positive [OF assms])
  have rpos: "0 < round_double x" by (rule round_double_pos [OF assms])
  from rounded_significand_range [OF x(1)] x(2)
  have n: "2 ^ 52 \<le> ?n" "?n \<le> 2 ^ 53" by simp_all
  show ?thesis
  proof (cases "?n = 2 ^ 53")
    case True
    have val: "round_double x = 2 powi (?e + 1)"
      unfolding r True using two_powi_split [of ?e] by (simp add: two_powi_Suc)
    have "\<bar>(2::real) powi (?e + 1)\<bar> < 2 powi (?e + 1 + 1)"
      using two_powi_Suc [of "?e + 1"] zero_less_power_int [of "2::real" "?e + 1"] by simp
    moreover have "(2::real) powi (?e + 1) \<le> \<bar>2 powi (?e + 1)\<bar>" by simp
    ultimately have "exponent (round_double x) = ?e + 1"
      unfolding val by (intro exponent_unique)
    then have "round_double (round_double x)
        = 2 powi (?e + 1 - 52) * of_int (round_half_even (2 powi (?e + 1) / 2 powi (?e + 1 - 52)))"
      unfolding round_double_positive [OF rpos] unfolding val by simp
    also have "2 powi (?e + 1) / (2::real) powi (?e + 1 - 52) = of_int (2 ^ 52)"
      using two_powi_split [of "?e + 1"] by simp
    also have "2 powi (?e + 1 - 52) * of_int (round_half_even (of_int (2 ^ 52))) = (2::real) powi (?e + 1)"
      unfolding round_half_even_of_int using two_powi_split [of "?e + 1"] by simp
    finally show ?thesis unfolding val .
  next
    case False
    with n(2) have lt: "?n < 2 ^ 53" by simp
    have lo: "?q * 2 ^ 52 = 2 powi ?e" by (rule two_powi_split [symmetric])
    have hi: "?q * 2 ^ 53 = 2 powi (?e + 1)" using lo by (simp add: two_powi_Suc)
    from n(1) have "(2::real) ^ 52 \<le> of_int ?n"
      using of_int_le_iff [of "2 ^ 52" ?n, where ?'a = real] by simp
    with q have "?q * 2 ^ 52 \<le> ?q * of_int ?n" by (intro mult_left_mono) simp_all
    then have b1: "2 powi ?e \<le> \<bar>round_double x\<bar>" unfolding lo r [symmetric] using rpos by simp
    from lt have "(of_int ?n :: real) < 2 ^ 53"
      using of_int_less_iff [of ?n "2 ^ 53", where ?'a = real] by simp
    with q have "?q * of_int ?n < ?q * 2 ^ 53" by (intro mult_strict_left_mono) simp_all
    then have b2: "\<bar>round_double x\<bar> < 2 powi (?e + 1)" unfolding hi r [symmetric] using rpos by simp
    from exponent_unique [OF b1 b2] have e: "exponent (round_double x) = ?e" .
    have "round_double x / ?q = of_int ?n" unfolding r using q by simp
    then show ?thesis
      unfolding round_double_positive [OF rpos] e by (simp add: r)
  qed
qed

lemma round_double_idem [simp]: "round_double (round_double x) = round_double x"
proof -
  consider "0 < x" | "x = 0" | "0 < - x" by linarith
  then show ?thesis
  proof cases
    case 1
    then show ?thesis by (rule round_double_idem_pos)
  next
    case 2
    then show ?thesis by simp
  next
    case 3
    from round_double_idem_pos [OF 3] show ?thesis by (simp add: round_double_minus)
  qed
qed

lemma round_double_diff_self [simp]: "round_double (t + - t) = 0"
  by simp

section \<open>Properties of the feature transformer\<close>

subsection \<open>Blocks of a concatenation\<close>

lemma length_concat_blocks:
  "\<forall>x \<in> set xs. length (e x) = w x \<Longrightarrow> length (concat (map e xs)) = sum_list (map w xs)"
  by (induction xs) auto

lemma concat_block:
  "\<forall>x \<in> set xs. length (e x) = w x \<Longrightarrow> p < length xs \<Longrightarrow>
     take (w (xs ! p)) (drop (sum_list (map w (take p xs))) (concat (map e xs))) = e (xs ! p)"
proof (induction xs arbitrary: p)
  case Nil
  then show ?case by simp
next
  case (Cons x xs)
  show ?case
  proof (cases p)
    case 0
    with Cons.prems show ?thesis by simp
  next
    case (Suc q)
    with Cons.prems Cons.IH [of q] show ?thesis by simp
  qed
qed

lemma concat_nth_block:
  "\<forall>x \<in> set xs. \<forall>r. length (e r x) = w x \<Longrightarrow> j < sum_list (map w xs) \<Longrightarrow>
     \<exists>x \<in> set xs. \<exists>i < w x. \<forall>r. concat (map (e r) xs) ! j = e r x ! i"
proof (induction xs arbitrary: j)
  case Nil
  then show ?case by simp
next
  case (Cons x xs)
  show ?case
  proof (cases "j < w x")
    case True
    with Cons.prems(1) have "\<forall>r. concat (map (e r) (x # xs)) ! j = e r x ! j"
      by (simp add: nth_append)
    with True show ?thesis by auto
  next
    case False
    with Cons.prems have "j - w x < sum_list (map w xs)" by simp
    with Cons.IH [of "j - w x"] Cons.prems(1)
    obtain y i where "y \<in> set xs" "i < w y" "\<forall>r. concat (map (e r) xs) ! (j - w x) = e r y ! i"
      by auto
    with False Cons.prems(1) show ?thesis
      by (auto simp: nth_append intro!: bexI [of _ y] exI [of _ i])
  qed
qed

subsection \<open>One-hot rows\<close>

lemma index_of_None: "index_of v xs = None \<longleftrightarrow> v \<notin> set xs"
  by (induction xs) auto

lemma index_of_Some: "index_of v xs = Some i \<Longrightarrow> i < length xs \<and> xs ! i = v"
  by (induction xs arbitrary: i) (auto split: if_splits)

lemma index_of_nth: "distinct xs \<Longrightarrow> i < length xs \<Longrightarrow> index_of (xs ! i) xs = Some i"
proof (induction xs arbitrary: i)
  case Nil
  then show ?case by simp
next
  case (Cons x xs)
  then show ?case by (cases i) auto
qed

lemma length_one_hot_row [simp]: "length (one_hot_row cats v) = length cats - 1"
  by (simp add: one_hot_row_def Let_def split: option.split)

lemma set_one_hot_row: "set (one_hot_row cats v) \<subseteq> {0, 1}"
proof -
  have "set ((replicate n (0::real))[k := 1]) \<subseteq> {0, 1}" for n k
    using set_update_subset_insert [of "replicate n (0::real)" k 1] by auto
  then show ?thesis
    by (auto simp: one_hot_row_def Let_def split: option.split)
qed

lemma ones_of_update: "length (filter (\<lambda>x. x = (1::real)) ((replicate n 0)[k := 1])) \<le> 1"
proof (induction n arbitrary: k)
  case 0
  show ?case by simp
next
  case (Suc n)
  show ?case
  proof (cases k)
    case 0
    then show ?thesis by simp
  next
    case (Suc k')
    with Suc.IH [of k'] show ?thesis by simp
  qed
qed

lemma ones_one_hot_row: "length (filter (\<lambda>x. x = 1) (one_hot_row cats v)) \<le> 1"
proof (cases "index_of v cats")
  case None
  then show ?thesis by (simp add: one_hot_row_def)
next
  case (Some i)
  with ones_of_update [of "length cats - 1" "i - 1"] show ?thesis
    by (simp add: one_hot_row_def Let_def)
qed

lemma one_hot_row_unseen: "v \<notin> set cats \<Longrightarrow> one_hot_row cats v = replicate (length cats - 1) 0"
  by (simp add: one_hot_row_def index_of_None [THEN iffD2])

lemma one_hot_row_reference: "v = hd cats \<Longrightarrow> one_hot_row cats v = replicate (length cats - 1) 0"
  by (cases cats) (simp_all add: one_hot_row_def)

lemma one_hot_row_first:
  "cats \<noteq> [] \<Longrightarrow> i < length cats - 1 \<Longrightarrow> one_hot_row cats (cats ! 0) ! i = 0"
  by (cases cats) (simp_all add: one_hot_row_def)

lemma one_hot_row_later:
  assumes "distinct cats" and "i < length cats - 1"
  shows "one_hot_row cats (cats ! Suc i) ! i = 1"
proof -
  from assms have "index_of (cats ! Suc i) cats = Some (Suc i)"
    by (intro index_of_nth) auto
  with assms(2) show ?thesis by (simp add: one_hot_row_def)
qed

subsection \<open>Fitting the encoder\<close>

lemma set_strings: "Str ` set (strings xs) = {v \<in> set xs. is_str v}"
  by (induction xs rule: strings.induct) auto

lemma set_numbers: "Num ` set (numbers xs) = {v \<in> set xs. is_num v}"
  by (induction xs rule: numbers.induct) auto

lemma val_cases: "is_str v \<or> is_num v \<or> v = NaN"
  by (cases v) auto

lemma one_hot_fit_Inr:
  assumes "one_hot_fit xs = Inr cats"
  shows "distinct cats" and "set cats = set xs"
proof -
  let ?s = "map Str (sort (remdups (strings xs)))"
  let ?n = "map Num (sort (remdups (numbers xs)))"
  let ?m = "if NaN \<in> set xs then [NaN] else []"
  from assms have cats: "cats = ?s @ ?n @ ?m"
    by (auto simp: one_hot_fit_def split: if_splits)
  have "distinct ?s" and "distinct ?n"
    by (simp_all add: distinct_map inj_on_def)
  moreover have "set ?s \<inter> set ?n = {}" and "set ?s \<inter> set ?m = {}" and "set ?n \<inter> set ?m = {}"
    by auto
  ultimately show "distinct cats" unfolding cats by auto
  have "set cats = {v \<in> set xs. is_str v} \<union> {v \<in> set xs. is_num v} \<union> {v \<in> set xs. v = NaN}"
    unfolding cats using set_strings [of xs] set_numbers [of xs] by auto
  also have "\<dots> = set xs"
    using val_cases by auto
  finally show "set cats = set xs" .
qed

lemma categorical_fit_Inr:
  "categorical_fit df cs = Inr fs \<Longrightarrow>
     list_all2 (\<lambda>c f. \<exists>cats. f = OneHot c cats \<and> one_hot_fit (column_values df c) = Inr cats) cs fs"
proof (induction cs arbitrary: fs)
  case Nil
  then show ?case by simp
next
  case (Cons c cs)
  from Cons.prems obtain cats fs' where "one_hot_fit (column_values df c) = Inr cats"
    and "categorical_fit df cs = Inr fs'" and "fs = OneHot c cats # fs'"
    by (auto split: sum.splits)
  with Cons.IH [of fs'] show ?case by simp
qed

subsection \<open>The scaler\<close>

lemma minmax_fit_scale:
  assumes "minmax_fit xs = (scale, mn)"
  shows "0 \<le> scale" and "mn = - round_double (Min (set xs) * scale)"
proof -
  let ?range = "round_double (Max (set xs) - Min (set xs))"
  let ?d = "if ?range < 10 * eps then 1 else ?range"
  from assms have scale: "scale = round_double ((1 - 0) / ?d)"
    by (simp add: minmax_fit_def Let_def)
  from assms have mn: "mn = round_double (0 - round_double (Min (set xs) * scale))"
    unfolding scale by (auto simp: minmax_fit_def Let_def)
  have "0 < eps" by (simp add: eps_def)
  then have "0 < ?d" by auto
  then have "0 \<le> (1 - 0) / ?d" by simp
  then show "0 \<le> scale" unfolding scale by (rule round_double_nonneg)
  show "mn = - round_double (Min (set xs) * scale)"
    unfolding mn by (simp add: round_double_minus)
qed


lemma minmax_transform_minimum:
  assumes "minmax_fit xs = (scale, mn)"
  shows "minmax_transform scale mn (Min (set xs)) = 0"
  unfolding minmax_transform_def minmax_fit_scale(2) [OF assms] by simp


text \<open>Without rounding, the scaler's formulas map the column maximum to 1.\<close>

lemma exact_maximum_maps_to_one:
  assumes "lo < (hi::real)"
  shows "hi * ((1 - 0) / (hi - lo)) + (0 - lo * ((1 - 0) / (hi - lo))) = 1"
proof -
  from assms have "hi - lo \<noteq> 0" by simp
  then have "(hi - lo) / (hi - lo) = 1" by (rule divide_self)
  then show ?thesis by (simp add: diff_divide_distrib [symmetric] del: divide_self_if)
qed

subsection \<open>Fitting and transforming\<close>

lemma length_encode [simp]: "length (encode cs r f) = width f"
  by (cases f) simp_all

lemma numerical_fit_cases:
  "numerical_fit df c = Empty c
   \<or> (\<exists>m scale mn. numerical_fit df c = Scaled c m scale mn
         \<and> minmax_fit (map (impute m) (column_values df c)) = (scale, mn))"
  by (auto simp: numerical_fit_def split: option.split prod.split)

lemma column_transformer_fit_Inr:
  assumes "column_transformer_fit dtypes df = Inr ft"
  shows "numerical ft = map (numerical_fit df) (numerical_features dtypes df)"
    and "categorical_fit df (categorical_features dtypes df) = Inr (categorical ft)"
    and "rows df = [] \<Longrightarrow> columns df = []"
  using assms
  by (auto simp: column_transformer_fit_def Let_def split: if_splits sum.splits)

lemma column_transformer_transform_Inr:
  assumes "column_transformer_transform ft dtypes df = Inr X"
  shows "X = map (\<lambda>r. concat (map (encode (columns df) r) (numerical ft))
                       @ concat (map (encode (columns df) r) (categorical ft))) (rows df)"
  using assms by (auto simp: column_transformer_transform_def split: if_splits list.splits)

lemma length_numeric_part:
  "length (concat (map (encode cs r) (numerical ft))) = n_numeric ft"
  unfolding n_numeric_def by (rule length_concat_blocks) simp

lemma categorical_fit_nth:
  assumes "column_transformer_fit dtypes df = Inr ft"
    and "p < length (categorical_features dtypes df)"
  obtains cats where "categorical ft ! p = OneHot (categorical_features dtypes df ! p) cats"
    and "one_hot_fit (column_values df (categorical_features dtypes df ! p)) = Inr cats"
    and "p < length (categorical ft)"
proof -
  from categorical_fit_Inr [OF column_transformer_fit_Inr(2) [OF assms(1)]] assms(2)
  show thesis by (auto simp: list_all2_conv_all_nth intro: that)
qed

lemma length_categorical:
  assumes "column_transformer_fit dtypes df = Inr ft"
  shows "length (categorical ft) = length (categorical_features dtypes df)"
  using categorical_fit_Inr [OF column_transformer_fit_Inr(2) [OF assms]]
  by (simp add: list_all2_lengthD)

lemma indicator_block_eq:
  assumes "p < length (categorical ft)"
  shows "indicator_block ft p (concat (map (encode cs r) (numerical ft))
                                 @ concat (map (encode cs r) (categorical ft)))
           = encode cs r (categorical ft ! p)"
proof -
  have "drop (n_numeric ft + sum_list (map width (take p (categorical ft))))
          (concat (map (encode cs r) (numerical ft)) @ concat (map (encode cs r) (categorical ft)))
        = drop (sum_list (map width (take p (categorical ft))))
            (concat (map (encode cs r) (categorical ft)))"
    using length_numeric_part [of cs r ft] by simp
  then show ?thesis
    unfolding indicator_block_def
    using concat_block [of "categorical ft" "encode cs r" width p] assms by simp
qed

text \<open>
  C3.  Fit the transformer on a table and transform any table with it.  For the \<open>p\<close>-th
  categorical variable (the \<open>p\<close>-th column of dtype \<^verbatim>\<open>object\<close>), with \<open>k\<close> distinct values in
  its column at fit time, the output row holds exactly \<open>k - 1\<close> indicator columns for it
  (the row is the numerical columns followed by these blocks); each indicator is 0 or 1, at
  most one of them is 1, and all are 0 when the row's value was not seen at fit time or is
  the dropped first category.
\<close>

theorem one_hot_block:
  assumes "column_transformer_fit dtypes df = Inr ft"
    and "column_transformer_transform ft dtypes' df' = Inr X"
    and "i < length (rows df')"
    and "p < length (categorical_features dtypes df)"
  shows "let c = categorical_features dtypes df ! p;
             observed = set (column_values df c);
             v = cell_value (columns df') (rows df' ! i) c;
             b = indicator_block ft p (X ! i)
         in length (X ! i) = n_numeric ft + sum_list (map width (categorical ft))
            \<and> length b = card observed - 1
            \<and> set b \<subseteq> {0, 1}
            \<and> length (filter (\<lambda>x. x = 1) b) \<le> 1
            \<and> (v \<notin> observed \<or> v = hd (categories (categorical ft ! p))
                 \<longrightarrow> b = replicate (card observed - 1) 0)"
proof -
  let ?c = "categorical_features dtypes df ! p"
  let ?r = "rows df' ! i"
  from assms(1,4) obtain cats where f: "categorical ft ! p = OneHot ?c cats"
    and cats: "one_hot_fit (column_values df ?c) = Inr cats"
    and p: "p < length (categorical ft)"
    by (rule categorical_fit_nth)
  from one_hot_fit_Inr(1) [OF cats] have card: "card (set cats) = length cats"
    by (rule distinct_card)
  from one_hot_fit_Inr(2) [OF cats] have set: "set (column_values df ?c) = set cats"
    by (rule sym)
  from column_transformer_transform_Inr [OF assms(2)] assms(3)
  have row: "X ! i = concat (map (encode (columns df') ?r) (numerical ft))
                       @ concat (map (encode (columns df') ?r) (categorical ft))"
    by simp
  have len: "length (X ! i) = n_numeric ft + sum_list (map width (categorical ft))"
    unfolding row by (simp add: length_numeric_part length_concat_blocks [where w = width])
  have b: "indicator_block ft p (X ! i) = one_hot_row cats (cell_value (columns df') ?r ?c)"
    unfolding row indicator_block_eq [OF p] f by simp
  show ?thesis
    unfolding Let_def b set card f categories.simps
    using len set_one_hot_row [of cats] ones_one_hot_row [of cats]
    by (auto simp: one_hot_row_unseen one_hot_row_reference)
qed

subsection \<open>Concrete runs\<close>

lemma fit_features_example:
  "column_transformer_fit features_dtypes features_example = Inr fitted_example"
  by code_simp


lemma transform_unseen_example:
  "column_transformer_transform fitted_example features_dtypes unseen_example = Inr unseen_matrix"
  by code_simp

theorem one_hot_block_witness:
  "column_transformer_fit features_dtypes features_example = Inr fitted_example
   \<and> column_transformer_transform fitted_example features_dtypes unseen_example = Inr unseen_matrix
   \<and> 0 < length (rows unseen_example)
   \<and> 0 < length (categorical_features features_dtypes features_example)
   \<and> categorical_features features_dtypes features_example ! 0 = ''MSZoning''
   \<and> card (set (column_values features_example ''MSZoning'')) = 3
   \<and> cell_value (columns unseen_example) (rows unseen_example ! 0) ''MSZoning'' = Str ''RH''
   \<and> Str ''RH'' \<notin> set (column_values features_example ''MSZoning'')
   \<and> indicator_block fitted_example 0 (unseen_matrix ! 0) = [0, 0]"
proof -
  have i: "0 < length (rows unseen_example)" by (simp add: unseen_example_def)
  have p: "0 < length (categorical_features features_dtypes features_example)" by code_simp
  have c: "categorical_features features_dtypes features_example ! 0 = ''MSZoning''" by code_simp
  have k: "card (set (column_values features_example ''MSZoning'')) = 3" by code_simp
  have v: "cell_value (columns unseen_example) (rows unseen_example ! 0) ''MSZoning'' = Str ''RH''"
    by code_simp
  have u: "Str ''RH'' \<notin> set (column_values features_example ''MSZoning'')" by code_simp
  from one_hot_block [OF fit_features_example transform_unseen_example i p]
  have "indicator_block fitted_example 0 (unseen_matrix ! 0) = replicate (3 - 1) 0"
    unfolding Let_def c k v using u by blast
  then have "indicator_block fitted_example 0 (unseen_matrix ! 0) = [0, 0]"
    by (simp add: numeral_eq_Suc)
  with fit_features_example transform_unseen_example i p c k v u show ?thesis by blast
qed

text \<open>
  The split into numerical and categorical columns follows the dtype, not the content: a
  column of dtype \<^verbatim>\<open>object\<close> that holds numbers only is one-hot encoded.  Transforming a
  table in which that column has a numerical dtype raises TypeError, and transforming a
  table without the column raises KeyError.
\<close>

lemma object_column_of_numbers_is_encoded:
  "column_transformer_fit object_dtypes object_numbers_example
     = Inr \<lparr>numerical = [], categorical = [OneHot ''CentralAir'' [Num 0, Num 1]]\<rparr>
   \<and> column_transformer_transform
       \<lparr>numerical = [], categorical = [OneHot ''CentralAir'' [Num 0, Num 1]]\<rparr>
       object_dtypes object_numbers_example = Inr [ [1], [0], [1]]"
  by code_simp

lemma transform_numerical_dtype_raises:
  "column_transformer_transform
     \<lparr>numerical = [], categorical = [OneHot ''CentralAir'' [Num 0, Num 1]]\<rparr>
     areas_dtypes all_missing_example = Inl TypeError"
  by code_simp

lemma transform_missing_column_raises:
  "column_transformer_transform
     \<lparr>numerical = [], categorical = [OneHot ''CentralAir'' [Num 0, Num 1]]\<rparr>
     object_dtypes areas_example = Inl (KeyError ''CentralAir'')"
  by code_simp

section \<open>Range of the scaled columns\<close>


subsection \<open>The output column of a fitted numerical column\<close>






text \<open>For the column with minimum 278 and maximum 96532 that bound is the entry above 1
  itself.\<close>

lemma scaled_maximum_example:
  "minmax_transform (6132688619264713 / 590295810358705651712)
     (- (3329858273741387 / 1152921504606846976)) 96532
   = 4503599627370497 / 4503599627370496"
  by code_simp

section \<open>The regression fit\<close>

subsection \<open>Coefficients that solve the normal equations minimise the squared residuals\<close>






subsection \<open>The constructor and the fit\<close>



text \<open>The fit raises on the transformer's output for a table whose only column has a
  single category: that matrix has no column.\<close>

lemma ols_fit_no_column_raises:
  "column_transformer_fit object_dtypes single_category_example
     = Inr \<lparr>numerical = [], categorical = [OneHot ''Street'' [Str ''Pave'']]\<rparr>
   \<and> column_transformer_transform
       \<lparr>numerical = [], categorical = [OneHot ''Street'' [Str ''Pave'']]\<rparr>
       object_dtypes single_category_example = Inr [ [], []]
   \<and> OLS [1, 2] [ [], []] False = Inr \<lparr>endog = [1, 2], exog = [ [], []], hasconst = False\<rparr>
   \<and> ols_fit solver_example \<lparr>endog = [1, 2], exog = [ [], []], hasconst = False\<rparr>
       = Inl (ValueError ''zero-size array to reduction operation'')"
  by code_simp

section \<open>The Breusch-Pagan test on the fitted model\<close>

subsection \<open>Every column of the design matrix holds a zero\<close>

lemma column_with_zero:
  assumes "(0::real) \<in> set col"
  shows "\<not> (let x_max = Max (set col) in round_double (x_max - Min (set col)) = 0 \<and> x_max \<noteq> 0)"
proof -
  from assms have "Min (set col) \<le> 0" and "0 \<le> Max (set col)" by simp_all
  then show ?thesis by (auto simp: Let_def)
qed

lemma scaled_column_has_zero:
  assumes "minmax_fit (map g rs) = (scale, mn)" and "rs \<noteq> []"
  shows "0 \<in> set (map (\<lambda>r. minmax_transform scale mn (g r)) rs)"
proof -
  from assms(2) have "Min (set (map g rs)) \<in> set (map g rs)" by (intro Min_in) simp_all
  then obtain r where "r \<in> set rs" and "g r = Min (set (map g rs))" by auto
  with minmax_transform_minimum [OF assms(1)] show ?thesis by (force simp: image_iff)
qed

lemma one_hot_column_has_zero:
  assumes "set cats = set (map g rs)" and "i < length cats - 1"
  shows "0 \<in> set (map (\<lambda>r. one_hot_row cats (g r) ! i) rs)"
proof -
  from assms(2) have ne: "cats \<noteq> []" and i0: "0 < length cats" by auto
  from i0 assms(1) obtain r0 where "r0 \<in> set rs" "g r0 = cats ! 0"
    using nth_mem [OF i0] by (auto simp: image_iff)
  with one_hot_row_first [OF ne assms(2)] show ?thesis by (force simp: image_iff)
qed

lemma fitted_column_has_zero:
  assumes fit: "column_transformer_fit dtypes df = Inr ft"
    and f: "f \<in> set (numerical ft @ categorical ft)" and i: "i < width f"
    and rows: "rows df \<noteq> []"
  shows "0 \<in> set (map (\<lambda>r. encode (columns df) r f ! i) (rows df))"
proof (cases "f \<in> set (numerical ft)")
  case True
  with column_transformer_fit_Inr(1) [OF fit] obtain c where "f = numerical_fit df c" by auto
  with numerical_fit_cases [of df c] i obtain m scale mn where
    fs: "f = Scaled c m scale mn"
    and mm: "minmax_fit (map (impute m) (column_values df c)) = (scale, mn)"
    by auto
  from mm have mm': "minmax_fit (map (\<lambda>r. impute m (cell_value (columns df) r c)) (rows df)) = (scale, mn)"
    by (simp add: column_values_def comp_def)
  from i fs have "i = 0" by simp
  with scaled_column_has_zero [OF mm' rows] fs show ?thesis by simp
next
  case False
  with f have "f \<in> set (categorical ft)" by simp
  then obtain p where p: "p < length (categorical ft)" and fp: "f = categorical ft ! p"
    by (auto simp: in_set_conv_nth)
  from p length_categorical [OF fit] have "p < length (categorical_features dtypes df)" by simp
  with fit obtain cats where "categorical ft ! p = OneHot (categorical_features dtypes df ! p) cats"
    and cats: "one_hot_fit (column_values df (categorical_features dtypes df ! p)) = Inr cats"
    by (rule categorical_fit_nth)
  with fp have fo: "f = OneHot (categorical_features dtypes df ! p) cats" by simp
  from one_hot_fit_Inr(2) [OF cats]
  have s: "set cats = set (map (\<lambda>r. cell_value (columns df) r (categorical_features dtypes df ! p)) (rows df))"
    by (simp add: column_values_def)
  from i fo have "i < length cats - 1" by simp
  from one_hot_column_has_zero [OF s this] fo show ?thesis by simp
qed

lemma ncols_transform:
  assumes "column_transformer_transform ft dtypes df = Inr X"
  shows "ncols X = (if rows df = [] then 0 else sum_list (map width (numerical ft @ categorical ft)))"
proof (cases "rows df")
  case Nil
  with column_transformer_transform_Inr [OF assms] show ?thesis by (simp add: ncols_def)
next
  case (Cons r rs)
  with column_transformer_transform_Inr [OF assms] show ?thesis
    by (simp add: ncols_def length_concat_blocks [where w = width])
qed


lemma design_matrix_fails_check:
  assumes fit: "column_transformer_fit dtypes df = Inr ft"
    and tr: "column_transformer_transform ft dtypes df = Inr X"
  shows "\<not> check_het_test X"
proof -
  have "\<not> (let x_max = Max (set (column_of X j))
           in round_double (x_max - Min (set (column_of X j))) = 0 \<and> x_max \<noteq> 0)"
    if j: "j < ncols X" for j
  proof -
    from j ncols_transform [OF tr] have rows: "rows df \<noteq> []"
      and jw: "j < sum_list (map width (numerical ft @ categorical ft))"
      by (auto split: if_splits)
    have "\<forall>f \<in> set (numerical ft @ categorical ft). \<forall>r. length (encode (columns df) r f) = width f"
      by simp
    from concat_nth_block [OF this jw] obtain f i where
      f: "f \<in> set (numerical ft @ categorical ft)" and i: "i < width f"
      and nth: "\<And>r. concat (map (encode (columns df) r) (numerical ft @ categorical ft)) ! j
                 = encode (columns df) r f ! i"
      by blast
    from column_transformer_transform_Inr [OF tr]
    have "column_of X j = map (\<lambda>r. encode (columns df) r f ! i) (rows df)"
      using nth by (simp add: column_of_def)
    with fitted_column_has_zero [OF fit f i rows] have "0 \<in> set (column_of X j)" by simp
    then show ?thesis by (rule column_with_zero)
  qed
  then show ?thesis
    by (simp add: check_het_test_def list_ex_iff)
qed



text \<open>In the notebook's Breusch-Pagan cell the message takes the place of the block.\<close>

lemma breusch_pagan_cell_prints_message:
  assumes "column_transformer_fit dtypes df = Inr ft"
    and "column_transformer_transform ft dtypes df = Inr X"
    and "rows df \<noteq> []"
  shows "try_display_test str resid ''Breusch-Pagan''
           [''LM score'', ''LM p-value'', ''F score'', ''F p-value'']
           (\<lambda>r. het_breuschpagan lm_test r X) out
         = out @ ''The Breusch-Pagan test requires exog to have at least two columns where one is a constant.''
             @ [nl]"
proof -
  from column_transformer_transform_Inr [OF assms(2)] assms(3) have "X \<noteq> []" by simp
  with design_matrix_fails_check [OF assms(1,2)]
  have "het_breuschpagan lm_test resid X
          = Inl ''The Breusch-Pagan test requires exog to have at least two columns where one is a constant.''"
    by (simp add: het_breuschpagan_def)
  then show ?thesis by (rule try_display_test_failure)
qed


end
